theory Spec2Isabelle
  imports Main
begin

section \<open>Platform constants\<close>

text \<open>
  Error numbers of \<^verbatim>\<open><errno.h>\<close> with their Darwin values. The functions of
  \<^verbatim>\<open>libzfs_util_os.c\<close> return and compare them as plain \<^verbatim>\<open>int\<close>.
\<close>

definition ENOENT :: int where "ENOENT = 2"
definition ENXIO :: int where "ENXIO = 6"
definition E2BIG :: int where "E2BIG = 7"
definition ENOEXEC :: int where "ENOEXEC = 8"
definition ENOMEM :: int where "ENOMEM = 12"
definition EACCES :: int where "EACCES = 13"
definition ENOTDIR :: int where "ENOTDIR = 20"
definition ETXTBSY :: int where "ETXTBSY = 26"
definition ELOOP :: int where "ELOOP = 62"
definition ENAMETOOLONG :: int where "ENAMETOOLONG = 63"

lemmas errno_defs =
  ENOENT_def ENXIO_def E2BIG_def ENOEXEC_def ENOMEM_def EACCES_def
  ENOTDIR_def ETXTBSY_def ELOOP_def ENAMETOOLONG_def

text \<open>\<^verbatim>\<open>MAXPATHLEN\<close> of \<^verbatim>\<open><sys/param.h>\<close>, the size of \<^verbatim>\<open>buf\<close> in \<^verbatim>\<open>execvPe\<close>.\<close>

definition MAXPATHLEN :: nat where "MAXPATHLEN = 1024"

text \<open>\<^verbatim>\<open>_PATH_DEFPATH\<close> and \<^verbatim>\<open>_PATH_BSHELL\<close> of \<^verbatim>\<open><paths.h>\<close>.\<close>

definition PATH_DEFPATH :: string where "PATH_DEFPATH = ''/usr/bin:/bin''"
definition PATH_BSHELL :: string where "PATH_BSHELL = ''/bin/sh''"

text \<open>
  Modelled from the spec: the macros \<^verbatim>\<open>MILLISEC\<close>, \<^verbatim>\<open>NANOSEC\<close> and
  \<^verbatim>\<open>NSEC2MSEC\<close> come from a header of the repository that is not among the
  sources. The spec gives the sleep interval \<^verbatim>\<open>usleep(10 * MILLISEC)\<close> as 10 ms,
  so \<^verbatim>\<open>MILLISEC\<close> is 1000; \<^verbatim>\<open>NSEC2MSEC\<close> converts nanoseconds to milliseconds
  with C's division, which truncates towards zero.
\<close>

definition MILLISEC :: int where "MILLISEC = 1000"
definition NANOSEC :: int where "NANOSEC = 1000000000"

definition c_div :: "int \<Rightarrow> int \<Rightarrow> int" where
  "c_div a b =
     (if (a < 0) = (b < 0) then \<bar>a\<bar> div \<bar>b\<bar> else - (\<bar>a\<bar> div \<bar>b\<bar>))"

definition NSEC2MSEC :: "int \<Rightarrow> int" where
  "NSEC2MSEC n = c_div n (c_div NANOSEC MILLISEC)"

text \<open>
  \<^verbatim>\<open>hrtime_t\<close> and \<^verbatim>\<open>long\<close> are 64-bit signed integers. A difference or a
  product that leaves their range comes out wrapped around, as the machine
  computes it; \<open>wrap64\<close> is that result.
\<close>

definition wrap64 :: "int \<Rightarrow> int" where
  "wrap64 x = (x + 2 ^ 63) mod 2 ^ 64 - 2 ^ 63"

section \<open>Character buffers\<close>

text \<open>
  A cell of a \<^verbatim>\<open>char\<close> array: not yet written, the terminator \<^verbatim>\<open>'\0'\<close>, or a
  byte of string content. A C string is modelled by its content, a \<^typ>\<open>string\<close>;
  the terminator is the separate cell \<open>Nul\<close>. A write outside the array is
  undefined behaviour in C; here it is the value \<open>None\<close>.
\<close>

datatype cell = Uninit | Nul | Ch char

datatype fault = BufferOverflow | UnterminatedRead

definition bcopy :: "cell list \<Rightarrow> cell list \<Rightarrow> nat \<Rightarrow> cell list option" where
  "bcopy src buf off =
     (if off + length src \<le> length buf
      then Some (take off buf @ src @ drop (off + length src) buf)
      else None)"

definition store :: "cell list \<Rightarrow> nat \<Rightarrow> cell \<Rightarrow> cell list option" where
  "store buf i c = (if i < length buf then Some (buf[i := c]) else None)"

text \<open>\<^verbatim>\<open>strcpy(buf + off, s)\<close> writes the bytes of \<open>s\<close> and the terminator.\<close>

definition strcpy :: "cell list \<Rightarrow> nat \<Rightarrow> string \<Rightarrow> cell list option" where
  "strcpy buf off s = bcopy (map Ch s @ [Nul]) buf off"

text \<open>Reading the C string that starts at the beginning of an array.\<close>

fun cstr :: "cell list \<Rightarrow> string option" where
  "cstr [] = None"
| "cstr (Uninit # cs) = None"
| "cstr (Nul # cs) = Some []"
| "cstr (Ch c # cs) = map_option ((#) c) (cstr cs)"

section \<open>The operating system as seen by the readiness check\<close>

text \<open>
  The system calls are oracles: the result of the \<open>k\<close>-th call of \<^verbatim>\<open>access\<close>,
  \<^verbatim>\<open>open\<close> and \<^verbatim>\<open>gethrtime\<close>, the environment, the exit status of
  \<^verbatim>\<open>libzfs_run_process\<close>, and for the launcher the result of \<^verbatim>\<open>execve\<close>
  (\<open>None\<close>: the process image was replaced, \<open>Some e\<close>: it returned with
  \<^verbatim>\<open>errno = e\<close>) and of \<^verbatim>\<open>stat\<close>.
\<close>

record sys =
  access_res :: "nat \<Rightarrow> string \<Rightarrow> bool"
  getenv :: "string \<Rightarrow> string option"
  run_res :: "string \<Rightarrow> string list \<Rightarrow> int"
  open_res :: "nat \<Rightarrow> int \<times> int"
  hrtime :: "nat \<Rightarrow> int"
  execve_res :: "string \<Rightarrow> string list \<Rightarrow> string list \<Rightarrow> int option"
  stat_res :: "string \<Rightarrow> bool"

text \<open>
  The calls made so far, counted by kind, and the names of the environment
  variables that were read, in order.
\<close>

record calls =
  n_access :: nat
  n_run :: nat
  n_open :: nat
  n_close :: nat
  n_clock :: nat
  n_yield :: nat
  n_sleep :: nat
  env_reads :: "string list"

definition calls0 :: calls where
  "calls0 = \<lparr>n_access = 0, n_run = 0, n_open = 0, n_close = 0, n_clock = 0,
             n_yield = 0, n_sleep = 0, env_reads = []\<rparr>"

section \<open>\<^verbatim>\<open>libzfs_module_loaded\<close>\<close>

text \<open>
  \<^verbatim>\<open>char path[256]\<close>; \<^verbatim>\<open>memcpy\<close> of the five bytes of \<^verbatim>\<open>"/dev/"\<close>, then
  \<^verbatim>\<open>strcpy\<close> of the module name behind them. \<open>module_path\<close> is the string that
  \<^verbatim>\<open>access\<close> is given.
\<close>

definition path_prefix :: string where "path_prefix = ''/dev/''"

definition module_path :: "string \<Rightarrow> fault + string" where
  "module_path module =
     (case bcopy (map Ch path_prefix) (replicate 256 Uninit) 0 of
        None \<Rightarrow> Inl BufferOverflow
      | Some p1 \<Rightarrow>
         (case strcpy p1 (length path_prefix) module of
            None \<Rightarrow> Inl BufferOverflow
          | Some p2 \<Rightarrow>
             (case cstr p2 of
                None \<Rightarrow> Inl UnterminatedRead
              | Some path \<Rightarrow> Inr path)))"

definition libzfs_module_loaded :: "sys \<Rightarrow> string \<Rightarrow> calls \<Rightarrow> fault + bool \<times> calls" where
  "libzfs_module_loaded sy module s =
     (case module_path module of
        Inl f \<Rightarrow> Inl f
      | Inr path \<Rightarrow>
          Inr (access_res sy (n_access s) path, s\<lparr>n_access := n_access s + 1\<rparr>))"

section \<open>C library functions used by the readiness check\<close>

text \<open>
  \<^verbatim>\<open>tolower\<close> on ASCII and \<^verbatim>\<open>strncasecmp(a, b, n) == 0\<close>: the first \<open>n\<close> bytes
  (fewer where a string ends before) agree up to case.
\<close>

definition tolower :: "char \<Rightarrow> char" where
  "tolower c =
     (let n = (of_char c :: nat) in if 65 \<le> n \<and> n \<le> 90 then char_of (n + 32) else c)"

definition strncasecmp_eq :: "string \<Rightarrow> string \<Rightarrow> nat \<Rightarrow> bool" where
  "strncasecmp_eq a b n = (map tolower (take n a) = map tolower (take n b))"

text \<open>
  \<^verbatim>\<open>strtol(s, NULL, 0)\<close> on a 64-bit \<^verbatim>\<open>long\<close>: white space is skipped, a sign
  is optional, the prefix \<^verbatim>\<open>0x\<close> selects base 16 and a leading \<^verbatim>\<open>0\<close> base 8,
  the longest run of digits of the base is read (none gives 0), and a value
  out of range is \<^verbatim>\<open>LONG_MAX\<close> or \<^verbatim>\<open>LONG_MIN\<close>.
\<close>

definition LONG_MAX :: int where "LONG_MAX = 2 ^ 63 - 1"
definition LONG_MIN :: int where "LONG_MIN = - (2 ^ 63)"

definition isspace :: "char \<Rightarrow> bool" where
  "isspace c = (let n = (of_char c :: nat) in n = 32 \<or> (9 \<le> n \<and> n \<le> 13))"

definition digit_val :: "char \<Rightarrow> nat option" where
  "digit_val c =
     (let n = (of_char c :: nat) in
      if 48 \<le> n \<and> n \<le> 57 then Some (n - 48)
      else if 97 \<le> n \<and> n \<le> 122 then Some (n - 87)
      else if 65 \<le> n \<and> n \<le> 90 then Some (n - 55)
      else None)"

definition in_base :: "nat \<Rightarrow> char \<Rightarrow> bool" where
  "in_base b c = (case digit_val c of None \<Rightarrow> False | Some d \<Rightarrow> d < b)"

definition digit_of :: "char \<Rightarrow> int" where
  "digit_of c = (case digit_val c of None \<Rightarrow> 0 | Some d \<Rightarrow> int d)"

definition strtol :: "string \<Rightarrow> int" where
  "strtol s =
     (let s1 = dropWhile isspace s;
          neg = (case s1 of c # r \<Rightarrow> c = CHR ''-'' | [] \<Rightarrow> False);
          s2 = (case s1 of c # r \<Rightarrow> if c = CHR ''-'' \<or> c = CHR ''+'' then r else s1
                | [] \<Rightarrow> s1);
          hex = (case s2 of
                   z # x # d # r \<Rightarrow>
                     z = CHR ''0'' \<and> (x = CHR ''x'' \<or> x = CHR ''X'') \<and> in_base 16 d
                 | _ \<Rightarrow> False);
          base = (if hex then 16
                  else (case s2 of z # r \<Rightarrow> if z = CHR ''0'' then 8 else 10 | [] \<Rightarrow> 10));
          s3 = (if hex then drop 2 s2 else s2);
          v = foldl (\<lambda>a c. a * int base + digit_of c) 0 (takeWhile (in_base base) s3)
      in if neg then max LONG_MIN (- v) else min LONG_MAX v)"

section \<open>\<^verbatim>\<open>libzfs_load_module_impl\<close>\<close>

text \<open>
  \<^verbatim>\<open>ZFS_MODULE_TIMEOUT\<close>: 10 seconds when unset, else
  \<^verbatim>\<open>MAX(MIN(strtol(timeout_str, NULL, 0), 10 * 60), 0)\<close>.
\<close>

definition module_timeout :: "string option \<Rightarrow> int" where
  "module_timeout timeout_str =
     (case timeout_str of
        None \<Rightarrow> 10
      | Some v \<Rightarrow> max (min (strtol v) (10 * 60)) 0)"

text \<open>\<^verbatim>\<open>ZFS_MODULE_LOADING\<close>: a value that starts with YES or ON, in any case.\<close>

definition module_loading :: "string option \<Rightarrow> bool" where
  "module_loading load_str =
     (case load_str of
        None \<Rightarrow> False
      | Some v \<Rightarrow> strncasecmp_eq v ''YES'' (length ''YES'')
                 \<or> strncasecmp_eq v ''ON'' (length ''ON''))"

definition busy_timeout :: int where "busy_timeout = 10"

text \<open>
  The \<^verbatim>\<open>do ... while\<close> loop. Each round opens \<^verbatim>\<open>ZFS_DEV\<close>; a descriptor is
  closed and the result is 0; an error other than \<^verbatim>\<open>ENOENT\<close> is returned; on
  \<^verbatim>\<open>ENOENT\<close> the clock is read, the thread yields (first 10 ms) or sleeps
  10 ms, and the clock is read again for the loop condition. The elapsed time
  \<^verbatim>\<open>gethrtime() - start\<close> is a 64-bit difference and \<^verbatim>\<open>timeout * MILLISEC\<close> a
  64-bit product. The loop has no bound of its own, so a run that never
  leaves it is the value \<open>None\<close>.
\<close>

partial_function (option) wait_loop ::
  "sys \<Rightarrow> int \<Rightarrow> int \<Rightarrow> calls \<Rightarrow> (int \<times> calls) option" where
  "wait_loop sy timeout start s =
     (let fd = fst (open_res sy (n_open s));
          errno = snd (open_res sy (n_open s));
          s1 = s\<lparr>n_open := n_open s + 1\<rparr>
      in if fd \<ge> 0 then Some (0, s1\<lparr>n_close := n_close s1 + 1\<rparr>)
         else if errno \<noteq> ENOENT then Some (errno, s1)
         else
          (let t1 = hrtime sy (n_clock s1);
               s2 = s1\<lparr>n_clock := n_clock s1 + 1\<rparr>;
               s3 = (if NSEC2MSEC (wrap64 (t1 - start)) < busy_timeout
                     then s2\<lparr>n_yield := n_yield s2 + 1\<rparr>
                     else s2\<lparr>n_sleep := n_sleep s2 + 1\<rparr>);
               t2 = hrtime sy (n_clock s3);
               s4 = s3\<lparr>n_clock := n_clock s3 + 1\<rparr>
           in if NSEC2MSEC (wrap64 (t2 - start)) < wrap64 (timeout * MILLISEC)
              then wait_loop sy timeout start s4
              else Some (ENOENT, s4)))"

declare wait_loop.simps [code]

text \<open>
  The second half of \<^verbatim>\<open>libzfs_load_module_impl\<close>, where both branches of the
  existence check meet: read the timeout, read the clock, run the loop.
\<close>

definition load_module_wait :: "sys \<Rightarrow> calls \<Rightarrow> (fault + int \<times> calls) option" where
  "load_module_wait sy s =
     (let timeout = module_timeout (getenv sy ''ZFS_MODULE_TIMEOUT'');
          s1 = s\<lparr>env_reads := env_reads s @ [''ZFS_MODULE_TIMEOUT'']\<rparr>;
          start = hrtime sy (n_clock s1);
          s2 = s1\<lparr>n_clock := n_clock s1 + 1\<rparr>
      in map_option Inr (wait_loop sy timeout start s2))"

definition libzfs_load_module_impl ::
  "sys \<Rightarrow> string \<Rightarrow> calls \<Rightarrow> (fault + int \<times> calls) option" where
  "libzfs_load_module_impl sy module s =
     (let argv = [''/sbin/kextload'', module] in
      case libzfs_module_loaded sy module s of
        Inl f \<Rightarrow> Some (Inl f)
      | Inr (loaded, s1) \<Rightarrow>
          if \<not> loaded then
            (let load = module_loading (getenv sy ''ZFS_MODULE_LOADING'');
                 s2 = s1\<lparr>env_reads := env_reads s1 @ [''ZFS_MODULE_LOADING'']\<rparr>
             in if load \<and> run_res sy ''/sbin/kextload'' argv \<noteq> 0
                then Some (Inr (ENOEXEC, s2\<lparr>n_run := n_run s2 + 1\<rparr>))
                else
                 (let s3 = (if load then s2\<lparr>n_run := n_run s2 + 1\<rparr> else s2) in
                  case libzfs_module_loaded sy module s3 of
                    Inl f \<Rightarrow> Some (Inl f)
                  | Inr (loaded2, s4) \<Rightarrow>
                      if \<not> loaded2 then Some (Inr (ENXIO, s4))
                      else load_module_wait sy s4))
          else load_module_wait sy s1)"

section \<open>\<^verbatim>\<open>execvPe\<close> and \<^verbatim>\<open>execvpe\<close>\<close>

text \<open>
  What a call of \<^verbatim>\<open>execvPe\<close> comes to: the process image was replaced by the
  program at a path with an argument list and environment (the call does not
  return), or the call returned \<^verbatim>\<open>-1\<close> with a value of \<^verbatim>\<open>errno\<close>, or it left
  defined behaviour.
\<close>

datatype exec_result =
  Replaced string "string list" "string list"
| Failed int
| Faulted fault

text \<open>
  The locals that live across rounds of the search: \<^verbatim>\<open>buf\<close>, the flag
  \<^verbatim>\<open>eacces\<close>, and the effects so far: what was written to the error stream,
  and the paths given to \<^verbatim>\<open>stat\<close>.
\<close>

record search_state =
  buf :: "cell list"
  eacces :: bool
  err_out :: "string list"
  stats :: "string list"

definition search_state0 :: search_state where
  "search_state0 = \<lparr>buf = replicate MAXPATHLEN Uninit, eacces = False, err_out = [], stats = []\<rparr>"

text \<open>
  Control after an attempt or after the loop: \<open>Next\<close>, it goes on (\<^verbatim>\<open>break\<close> out
  of the \<^verbatim>\<open>switch\<close>, \<^verbatim>\<open>continue\<close>, or the end of the loop); \<open>Stop\<close>, the call is
  over (\<^verbatim>\<open>goto done\<close>, a replaced process image, or a fault).
\<close>

datatype flow = Next search_state | Stop exec_result search_state

text \<open>
  \<^verbatim>\<open>strsep(&cur, ":")\<close>: \<^verbatim>\<open>NULL\<close> when \<^verbatim>\<open>cur\<close> is \<^verbatim>\<open>NULL\<close>; else the text before
  the first colon, and \<^verbatim>\<open>cur\<close> becomes the text behind that colon, or \<^verbatim>\<open>NULL\<close>
  when there is no colon.
\<close>

definition strsep :: "string option \<Rightarrow> (string \<times> string option) option" where
  "strsep stringp =
     (case stringp of
        None \<Rightarrow> None
      | Some s \<Rightarrow>
          Some (takeWhile (\<lambda>c. c \<noteq> CHR '':'') s,
                (case dropWhile (\<lambda>c. c \<noteq> CHR '':'') s of
                   [] \<Rightarrow> None
                 | d # rest \<Rightarrow> Some rest)))"

text \<open>
  \<^verbatim>\<open>alloca\<close> moves the stack pointer and has no failure value; the tests of its
  result against \<^verbatim>\<open>NULL\<close> are kept where the source has them.
\<close>

definition alloca_ok :: "nat \<Rightarrow> bool" where
  "alloca_ok n = True"

text \<open>
  The argument vector for the shell. An argument vector is its strings
  followed by \<^verbatim>\<open>NULL\<close> (\<open>None\<close>). \<^verbatim>\<open>memp\<close> has \<^verbatim>\<open>cnt + 2\<close> cells: \<^verbatim>\<open>"sh"\<close>, \<^verbatim>\<open>bp\<close>,
  and the \<^verbatim>\<open>cnt\<close> cells copied from \<^verbatim>\<open>argv + 1\<close>, the last of which is the
  terminator of \<^verbatim>\<open>argv\<close> when \<^verbatim>\<open>cnt > 0\<close>. \<^verbatim>\<open>execve\<close> reads a vector up to its
  terminator; a vector without one is read past its end.
\<close>

definition shell_argv :: "string \<Rightarrow> string list \<Rightarrow> string option list" where
  "shell_argv bp argv =
     (let cnt = length argv
      in [Some ''sh'', Some bp] @ take cnt (drop 1 (map Some argv @ [None])))"

fun read_argv :: "string option list \<Rightarrow> string list option" where
  "read_argv [] = None"
| "read_argv (None # ps) = Some []"
| "read_argv (Some a # ps) = map_option ((#) a) (read_argv ps)"

text \<open>
  From the label \<^verbatim>\<open>retry\<close> to the end of the \<^verbatim>\<open>switch\<close>: one \<^verbatim>\<open>execve\<close> of
  \<^verbatim>\<open>bp\<close> and the treatment of its \<^verbatim>\<open>errno\<close>.
\<close>

definition try_exec ::
  "sys \<Rightarrow> string \<Rightarrow> string list \<Rightarrow> string list \<Rightarrow> search_state \<Rightarrow> flow" where
  "try_exec sy bp argv envp st =
     (case execve_res sy bp argv envp of
        None \<Rightarrow> Stop (Replaced bp argv envp) st
      | Some errno \<Rightarrow>
          if errno = E2BIG then Stop (Failed errno) st
          else if errno = ELOOP \<or> errno = ENAMETOOLONG \<or> errno = ENOENT then Next st
          else if errno = ENOEXEC then
            (if \<not> alloca_ok (length argv + 2) then Stop (Failed errno) st
             else
              (case read_argv (shell_argv bp argv) of
                 None \<Rightarrow> Stop (Faulted UnterminatedRead) st
               | Some memp \<Rightarrow>
                  (case execve_res sy PATH_BSHELL memp envp of
                     None \<Rightarrow> Stop (Replaced PATH_BSHELL memp envp) st
                   | Some e \<Rightarrow> Stop (Failed e) st)))
          else if errno = ENOMEM then Stop (Failed errno) st
          else if errno = ENOTDIR then Next st
          else if errno = ETXTBSY then Stop (Failed errno) st
          else
            (let st1 = st\<lparr>stats := stats st @ [bp]\<rparr>
             in if \<not> stat_res sy bp then Next st1
                else if errno = EACCES then Next (st1\<lparr>eacces := True\<rparr>)
                else Stop (Failed errno) st1))"

text \<open>
  The four writes that put \<^verbatim>\<open>p\<close>, a slash, \<^verbatim>\<open>name\<close> and the terminator into
  \<^verbatim>\<open>buf\<close>.
\<close>

definition build_candidate ::
  "string \<Rightarrow> nat \<Rightarrow> string \<Rightarrow> nat \<Rightarrow> cell list \<Rightarrow> cell list option" where
  "build_candidate p lp name ln b0 =
     Option.bind (bcopy (map Ch (take lp p)) b0 0) (\<lambda>b1.
     Option.bind (store b1 lp (Ch (CHR ''/''))) (\<lambda>b2.
     Option.bind (bcopy (map Ch (take ln name)) b2 (lp + 1)) (\<lambda>b3.
     store b3 (lp + ln + 1) Nul)))"

text \<open>
  The body of the \<^verbatim>\<open>while\<close> loop for one entry \<open>p0\<close> of the path, up to the
  label \<^verbatim>\<open>retry\<close>, followed by the attempt. An entry that does not fit is
  reported on the error stream in three writes and skipped.
\<close>

definition loop_body ::
  "sys \<Rightarrow> string \<Rightarrow> string list \<Rightarrow> string list \<Rightarrow> string \<Rightarrow> search_state \<Rightarrow> flow" where
  "loop_body sy name argv envp p0 st =
     (let p = (if p0 = [] then ''.'' else p0);
          lp = (if p0 = [] then 1 else length p0);
          ln = length name
      in if lp + ln + 2 > MAXPATHLEN
         then Next (st\<lparr>err_out := err_out st
                      @ [''execvP: '', take lp p, '': path too long'' @ [CHR 0x0A]]\<rparr>)
         else
          (case build_candidate p lp name ln (buf st) of
             None \<Rightarrow> Stop (Faulted BufferOverflow) st
           | Some b \<Rightarrow>
              (case cstr b of
                 None \<Rightarrow> Stop (Faulted UnterminatedRead) st
               | Some bp \<Rightarrow> try_exec sy bp argv envp (st\<lparr>buf := b\<rparr>))))"

text \<open>The \<^verbatim>\<open>while\<close> loop over the entries that \<^verbatim>\<open>strsep\<close> cuts from the path.\<close>

function search ::
  "sys \<Rightarrow> string \<Rightarrow> string list \<Rightarrow> string list \<Rightarrow> string option \<Rightarrow> search_state \<Rightarrow> flow" where
  "search sy name argv envp cur st =
     (case strsep cur of
        None \<Rightarrow> Next st
      | Some (p0, cur') \<Rightarrow>
         (case loop_body sy name argv envp p0 st of
            Stop r st' \<Rightarrow> Stop r st'
          | Next st' \<Rightarrow> search sy name argv envp cur' st'))"
  by pat_completeness auto
termination
proof (relation "measure (\<lambda>(sy, name, argv, envp, cur, st).
                   case cur of None \<Rightarrow> 0 | Some s \<Rightarrow> Suc (length s))")
  show "wf (measure (\<lambda>(sy, name, argv, envp, cur, st).
              case cur of None \<Rightarrow> 0 | Some s \<Rightarrow> Suc (length (s :: string))))"
    by simp
next
  fix sy :: sys and name :: string and argv envp :: "string list"
    and cur :: "string option" and st st' :: search_state and x2 p0 cur'
  assume "strsep cur = Some x2" "(p0, cur') = x2"
  then have "cur' = None \<or> (\<exists>s d rest. cur = Some s \<and> cur' = Some rest
                \<and> dropWhile (\<lambda>c. c \<noteq> CHR '':'') s = d # rest)"
    by (auto simp: strsep_def split: option.splits list.splits)
  then have "(case cur' of None \<Rightarrow> 0 | Some s \<Rightarrow> Suc (length s))
               < (case cur of None \<Rightarrow> 0 | Some s \<Rightarrow> Suc (length s))"
  proof
    assume "cur' = None"
    with \<open>strsep cur = Some x2\<close> show ?thesis
      by (auto simp: strsep_def split: option.splits)
  next
    assume "\<exists>s d rest. cur = Some s \<and> cur' = Some rest
              \<and> dropWhile (\<lambda>c. c \<noteq> CHR '':'') s = d # rest"
    then obtain s d rest where c: "cur = Some s" "cur' = Some rest"
      and d: "dropWhile (\<lambda>c. c \<noteq> CHR '':'') s = d # rest"
      by blast
    have "length (dropWhile (\<lambda>c. c \<noteq> CHR '':'') s) \<le> length s"
      by (rule length_dropWhile_le)
    with d have "length rest < length s" by simp
    with c show ?thesis by simp
  qed
  then show "((sy, name, argv, envp, cur', st'), (sy, name, argv, envp, cur, st))
               \<in> measure (\<lambda>(sy, name, argv, envp, cur, st).
                    case cur of None \<Rightarrow> 0 | Some s \<Rightarrow> Suc (length s))"
    by simp
qed

definition execvPe ::
  "sys \<Rightarrow> string \<Rightarrow> string \<Rightarrow> string list \<Rightarrow> string list \<Rightarrow> exec_result \<times> string list" where
  "execvPe sy name path argv envp =
     (let after =
           (if CHR ''/'' \<in> set name then
              (case try_exec sy name argv envp search_state0 of
                 Stop r st \<Rightarrow> Stop r st
               | Next st \<Rightarrow> search sy name argv envp None st)
            else if name = [] then Stop (Failed ENOENT) search_state0
            else if \<not> alloca_ok (length path + 1) then Stop (Failed ENOMEM) search_state0
            else search sy name argv envp (Some path) search_state0)
      in case after of
           Stop r st \<Rightarrow> (r, err_out st)
         | Next st \<Rightarrow> (Failed (if eacces st then EACCES else ENOENT), err_out st))"

definition execvpe ::
  "sys \<Rightarrow> string \<Rightarrow> string list \<Rightarrow> string list \<Rightarrow> exec_result \<times> string list" where
  "execvpe sy name argv envp =
     (let path = (case getenv sy ''PATH'' of None \<Rightarrow> PATH_DEFPATH | Some v \<Rightarrow> v)
      in execvPe sy name path argv envp)"

section \<open>Vocabulary for the search\<close>

text \<open>
  The entries that the loop visits, the path it builds for an entry, and the
  test that an entry does not fit \<^verbatim>\<open>buf\<close>.
\<close>

function path_entries :: "string option \<Rightarrow> string list" where
  "path_entries cur =
     (case strsep cur of None \<Rightarrow> [] | Some (p0, cur') \<Rightarrow> p0 # path_entries cur')"
  by pat_completeness auto
termination
proof (relation "measure (\<lambda>cur. case cur of None \<Rightarrow> 0 | Some s \<Rightarrow> Suc (length s))")
  show "wf (measure (\<lambda>cur. case cur of None \<Rightarrow> 0 | Some s \<Rightarrow> Suc (length (s :: string))))"
    by simp
next
  fix cur :: "string option" and x2 p0 cur'
  assume "strsep cur = Some x2" "(p0, cur') = x2"
  then have "cur' = None \<or> (\<exists>s d rest. cur = Some s \<and> cur' = Some rest
                \<and> dropWhile (\<lambda>c. c \<noteq> CHR '':'') s = d # rest)"
    by (auto simp: strsep_def split: option.splits list.splits)
  then have "(case cur' of None \<Rightarrow> 0 | Some s \<Rightarrow> Suc (length s))
               < (case cur of None \<Rightarrow> 0 | Some s \<Rightarrow> Suc (length s))"
  proof
    assume "cur' = None"
    with \<open>strsep cur = Some x2\<close> show ?thesis
      by (auto simp: strsep_def split: option.splits)
  next
    assume "\<exists>s d rest. cur = Some s \<and> cur' = Some rest
              \<and> dropWhile (\<lambda>c. c \<noteq> CHR '':'') s = d # rest"
    then obtain s d rest where c: "cur = Some s" "cur' = Some rest"
      and d: "dropWhile (\<lambda>c. c \<noteq> CHR '':'') s = d # rest"
      by blast
    have "length (dropWhile (\<lambda>c. c \<noteq> CHR '':'') s) \<le> length s"
      by (rule length_dropWhile_le)
    with d have "length rest < length s" by simp
    with c show ?thesis by simp
  qed
  then show "(cur', cur) \<in> measure (\<lambda>cur. case cur of None \<Rightarrow> 0 | Some s \<Rightarrow> Suc (length s))"
    by simp
qed

declare search.simps [simp del] path_entries.simps [simp del]

definition candidate :: "string \<Rightarrow> string \<Rightarrow> string" where
  "candidate p0 name = (if p0 = [] then ''.'' else p0) @ ''/'' @ name"

definition too_long :: "string \<Rightarrow> string \<Rightarrow> bool" where
  "too_long p0 name = ((if p0 = [] then 1 else length p0) + length name + 2 > MAXPATHLEN)"

text \<open>An attempt that fails with \<^verbatim>\<open>EACCES\<close> on a path that \<^verbatim>\<open>stat\<close> accepts.\<close>

definition denied :: "sys \<Rightarrow> string \<Rightarrow> string list \<Rightarrow> string list \<Rightarrow> bool" where
  "denied sy bp argv envp \<longleftrightarrow> execve_res sy bp argv envp = Some EACCES \<and> stat_res sy bp"

section \<open>Bookkeeping for one round of the wait loop\<close>

text \<open>
  The call counts after a round in which \<^verbatim>\<open>open\<close> failed with \<^verbatim>\<open>ENOENT\<close>: one
  \<^verbatim>\<open>open\<close>, two clock readings, and one \<^verbatim>\<open>sched_yield\<close> or one \<^verbatim>\<open>usleep\<close>.
\<close>

definition round_calls :: "sys \<Rightarrow> int \<Rightarrow> calls \<Rightarrow> calls" where
  "round_calls sy start s =
     (if NSEC2MSEC (wrap64 (hrtime sy (n_clock s) - start)) < busy_timeout
      then s\<lparr>n_open := n_open s + 1, n_yield := n_yield s + 1, n_clock := n_clock s + 2\<rparr>
      else s\<lparr>n_open := n_open s + 1, n_sleep := n_sleep s + 1, n_clock := n_clock s + 2\<rparr>)"

section \<open>Example systems\<close>

text \<open>The device node exists, but opening the control device is refused.\<close>

definition sys_denied :: sys where
  "sys_denied =
     \<lparr>access_res = (\<lambda>k p. True), getenv = (\<lambda>v. None), run_res = (\<lambda>p a. 0),
      open_res = (\<lambda>k. (- 1, EACCES)), hrtime = (\<lambda>k. int k * 1000000),
      execve_res = (\<lambda>p a e. Some ENOENT), stat_res = (\<lambda>p. False)\<rparr>"

text \<open>
  The node never appears; the probe and the sleep each take 12.5 ms
  (\<open>sys_slow\<close>), every clock reading is 5 ms after the one before
  (\<open>sys_tick\<close>), or the clock does not advance (\<open>sys_stalled\<close>).
\<close>

definition sys_slow :: sys where
  "sys_slow =
     \<lparr>access_res = (\<lambda>k p. True), getenv = (\<lambda>v. None), run_res = (\<lambda>p a. 0),
      open_res = (\<lambda>k. (- 1, ENOENT)), hrtime = (\<lambda>k. int k * 12500000),
      execve_res = (\<lambda>p a e. Some ENOENT), stat_res = (\<lambda>p. False)\<rparr>"



text \<open>As \<open>sys_slow\<close>, with \<^verbatim>\<open>ZFS_MODULE_TIMEOUT=-1\<close>.\<close>

definition sys_slow_neg :: sys where
  "sys_slow_neg =
     sys_slow\<lparr>getenv := (\<lambda>v. if v = ''ZFS_MODULE_TIMEOUT'' then Some ''-1'' else None)\<rparr>"

text \<open>The node exists; the first \<^verbatim>\<open>open\<close> fails with \<^verbatim>\<open>ENOENT\<close>, the second succeeds.\<close>

definition sys_late :: sys where
  "sys_late =
     \<lparr>access_res = (\<lambda>k p. True), getenv = (\<lambda>v. None), run_res = (\<lambda>p a. 0),
      open_res = (\<lambda>k. if k = 0 then (- 1, ENOENT) else (3, 0)),
      hrtime = (\<lambda>k. int k * 1000000),
      execve_res = (\<lambda>p a e. Some ENOENT), stat_res = (\<lambda>p. False)\<rparr>"

text \<open>The control device opens at once, as descriptor 3.\<close>

definition sys_ready :: sys where
  "sys_ready =
     \<lparr>access_res = (\<lambda>k p. True), getenv = (\<lambda>v. None), run_res = (\<lambda>p a. 0),
      open_res = (\<lambda>k. (3, 0)), hrtime = (\<lambda>k. int k * 1000000),
      execve_res = (\<lambda>p a e. Some ENOENT), stat_res = (\<lambda>p. False)\<rparr>"

text \<open>
  Systems for the launcher, all without \<^verbatim>\<open>PATH\<close> unless said otherwise.
  \<open>sys_exec\<close> is built from the result of \<^verbatim>\<open>execve\<close> and of \<^verbatim>\<open>stat\<close> per path.
\<close>

definition sys_exec :: "(string \<Rightarrow> int option) \<Rightarrow> (string \<Rightarrow> bool) \<Rightarrow> sys" where
  "sys_exec ex stt =
     \<lparr>access_res = (\<lambda>k p. False), getenv = (\<lambda>v. None), run_res = (\<lambda>p a. 0),
      open_res = (\<lambda>k. (- 1, ENOENT)), hrtime = (\<lambda>k. 0),
      execve_res = (\<lambda>p a e. ex p), stat_res = stt\<rparr>"

text \<open>\<^verbatim>\<open>PATH\<close> is set and empty; only \<^verbatim>\<open>./prog\<close> can be executed.\<close>

definition sys_cwd :: sys where
  "sys_cwd =
     (sys_exec (\<lambda>p. if p = ''./prog'' then None else Some ENOENT) (\<lambda>p. p = ''./prog''))
       \<lparr>getenv := (\<lambda>v. if v = ''PATH'' then Some [] else None)\<rparr>"

text \<open>Every file exists and every \<^verbatim>\<open>execve\<close> is refused.\<close>

definition sys_noperm :: sys where
  "sys_noperm = sys_exec (\<lambda>p. Some EACCES) (\<lambda>p. True)"

text \<open>\<^verbatim>\<open>/a/prog\<close> is busy and \<^verbatim>\<open>stat\<close> fails on it; \<^verbatim>\<open>/b/prog\<close> can be executed.\<close>

definition sys_busy :: sys where
  "sys_busy =
     sys_exec (\<lambda>p. if p = ''/a/prog'' then Some ETXTBSY
                    else if p = ''/b/prog'' then None else Some ENOENT)
              (\<lambda>p. p = ''/b/prog'')"

text \<open>
  \<^verbatim>\<open>/a/prog\<close> is a script without a recognised header and the shell cannot be
  executed (\<^verbatim>\<open>ENOENT\<close>); \<^verbatim>\<open>/b/prog\<close> can be executed.
\<close>

definition sys_script :: sys where
  "sys_script =
     sys_exec (\<lambda>p. if p = ''/a/prog'' then Some ENOEXEC
                    else if p = ''/b/prog'' then None else Some ENOENT)
              (\<lambda>p. True)"

text \<open>Only \<^verbatim>\<open>/b/prog\<close> can be executed; the entry before it is 1024 bytes long.\<close>

definition sys_b :: sys where
  "sys_b = sys_exec (\<lambda>p. if p = ''/b/prog'' then None else Some ENOENT) (\<lambda>p. p = ''/b/prog'')"

definition long_entry :: string where
  "long_entry = replicate 1024 (CHR ''a'')"

section \<open>Buffer lemmas\<close>

lemma cstr_content: "cstr (map Ch s @ Nul # rest) = Some s"
  by (induction s) simp_all

lemma module_path_eq:
  "module_path module =
     (if length module \<le> 250 then Inr (path_prefix @ module) else Inl BufferOverflow)"
proof (cases "length module \<le> 250")
  case True
  have p1: "bcopy (map Ch path_prefix) (replicate 256 Uninit) 0
              = Some (map Ch path_prefix @ replicate 251 Uninit)"
    by (simp add: bcopy_def path_prefix_def)
  have p2: "strcpy (map Ch path_prefix @ replicate 251 Uninit) (length path_prefix) module
              = Some (map Ch path_prefix @ map Ch module @ Nul
                        # replicate (250 - length module) Uninit)"
    using True by (simp add: strcpy_def bcopy_def path_prefix_def)
  have "cstr (map Ch (path_prefix @ module) @ Nul # replicate (250 - length module) Uninit)
          = Some (path_prefix @ module)"
    by (rule cstr_content)
  with p1 p2 True show ?thesis
    by (simp add: module_path_def)
next
  case False
  have p1: "bcopy (map Ch path_prefix) (replicate 256 Uninit) 0
              = Some (map Ch path_prefix @ replicate 251 Uninit)"
    by (simp add: bcopy_def path_prefix_def)
  have "strcpy (map Ch path_prefix @ replicate 251 Uninit) (length path_prefix) module = None"
    using False by (simp add: strcpy_def bcopy_def path_prefix_def)
  with p1 False show ?thesis
    by (simp add: module_path_def)
qed

section \<open>The wait loop, round by round\<close>

lemma NSEC2MSEC_eq:
  "NSEC2MSEC n = (if n < 0 then - ((- n) div 1000000) else n div 1000000)"
  by (simp add: NSEC2MSEC_def c_div_def NANOSEC_def MILLISEC_def)


lemma NSEC2MSEC_nonneg: "0 \<le> x \<Longrightarrow> 0 \<le> NSEC2MSEC x"
  by (simp add: NSEC2MSEC_eq)

lemma wrap64_id:
  assumes "- (2 ^ 63) \<le> x" "x < 2 ^ 63"
  shows "wrap64 x = x"
proof -
  have "(x + 2 ^ 63) mod 2 ^ 64 = x + 2 ^ 63"
    using assms by (intro mod_pos_pos_trivial) simp_all
  then show ?thesis by (simp add: wrap64_def)
qed


lemma wait_loop_opened:
  assumes "0 \<le> fst (open_res sy (n_open s))"
  shows "wait_loop sy T start s = Some (0, s\<lparr>n_open := n_open s + 1, n_close := n_close s + 1\<rparr>)"
  using assms by (subst wait_loop.simps) (simp add: Let_def)

lemma wait_loop_error:
  assumes "fst (open_res sy (n_open s)) < 0" "snd (open_res sy (n_open s)) \<noteq> ENOENT"
  shows "wait_loop sy T start s = Some (snd (open_res sy (n_open s)), s\<lparr>n_open := n_open s + 1\<rparr>)"
  using assms by (subst wait_loop.simps) (simp add: Let_def)

lemma wait_loop_retry:
  assumes "fst (open_res sy (n_open s)) < 0" "snd (open_res sy (n_open s)) = ENOENT"
  shows "wait_loop sy T start s =
           (if NSEC2MSEC (wrap64 (hrtime sy (n_clock s + 1) - start)) < wrap64 (T * MILLISEC)
            then wait_loop sy T start (round_calls sy start s)
            else Some (ENOENT, round_calls sy start s))"
  using assms by (subst wait_loop.simps) (simp add: Let_def round_calls_def)

lemma round_calls_simps:
  "n_open (round_calls sy start s) = n_open s + 1"
  "n_clock (round_calls sy start s) = n_clock s + 2"
  "n_run (round_calls sy start s) = n_run s"
  "n_access (round_calls sy start s) = n_access s"
  "env_reads (round_calls sy start s) = env_reads s"
  "n_yield (round_calls sy start s) + n_sleep (round_calls sy start s) = n_yield s + n_sleep s + 1"
  by (simp_all add: round_calls_def)

text \<open>What a returned result says about the run.\<close>

lemma wait_loop_result:
  assumes "wait_loop sy T start s = Some y"
  shows "n_run (snd y) = n_run s \<and> n_access (snd y) = n_access s
         \<and> env_reads (snd y) = env_reads s
         \<and> n_open s < n_open (snd y)
         \<and> (\<forall>k. n_open s \<le> k \<and> k < n_open (snd y) - 1 \<longrightarrow>
               fst (open_res sy k) < 0 \<and> snd (open_res sy k) = ENOENT)
         \<and> (0 \<le> fst (open_res sy (n_open (snd y) - 1)) \<longrightarrow> fst y = 0)
         \<and> (fst (open_res sy (n_open (snd y) - 1)) < 0
              \<and> snd (open_res sy (n_open (snd y) - 1)) \<noteq> ENOENT
            \<longrightarrow> fst y = snd (open_res sy (n_open (snd y) - 1)))
         \<and> (fst (open_res sy (n_open (snd y) - 1)) < 0
              \<and> snd (open_res sy (n_open (snd y) - 1)) = ENOENT
            \<longrightarrow> fst y = ENOENT \<and> n_clock s < n_clock (snd y)
                \<and> \<not> NSEC2MSEC (wrap64 (hrtime sy (n_clock (snd y) - 1) - start))
                      < wrap64 (T * MILLISEC))"
  using assms
proof (induction sy T start s y rule: wait_loop.raw_induct [rotated 1, consumes 1])
  case (1 wl sy T start s y)
  note IH = 1(1) and body = 1(2)
  show ?case
  proof (cases "0 \<le> fst (open_res sy (n_open s))")
    case True
    with body show ?thesis by (auto simp: Let_def)
  next
    case False
    note neg = this
    show ?thesis
    proof (cases "snd (open_res sy (n_open s)) = ENOENT")
      case False
      with neg body show ?thesis by (auto simp: Let_def)
    next
      case True
      with neg body have step:
        "(if NSEC2MSEC (wrap64 (hrtime sy (n_clock s + 1) - start)) < wrap64 (T * MILLISEC)
          then wl sy T start (round_calls sy start s)
          else Some (ENOENT, round_calls sy start s)) = Some y"
        by (cases "NSEC2MSEC (wrap64 (hrtime sy (n_clock s) - start)) < busy_timeout")
          (simp_all add: Let_def round_calls_def cong del: if_weak_cong)
      show ?thesis
      proof (cases "NSEC2MSEC (wrap64 (hrtime sy (n_clock s + 1) - start)) < wrap64 (T * MILLISEC)")
        case False
        with step have y: "y = (ENOENT, round_calls sy start s)" by simp
        with neg True False show ?thesis
          by (simp add: round_calls_simps)
      next
        case again: True
        with step have "wl sy T start (round_calls sy start s) = Some y" by simp
        from IH [OF this] have ih:
          "n_run (snd y) = n_run s" "n_access (snd y) = n_access s"
          "env_reads (snd y) = env_reads s" "n_open s + 1 < n_open (snd y)"
          "\<forall>k. n_open s + 1 \<le> k \<and> k < n_open (snd y) - 1 \<longrightarrow>
               fst (open_res sy k) < 0 \<and> snd (open_res sy k) = ENOENT"
          "0 \<le> fst (open_res sy (n_open (snd y) - 1)) \<longrightarrow> fst y = 0"
          "fst (open_res sy (n_open (snd y) - 1)) < 0
              \<and> snd (open_res sy (n_open (snd y) - 1)) \<noteq> ENOENT
            \<longrightarrow> fst y = snd (open_res sy (n_open (snd y) - 1))"
          "fst (open_res sy (n_open (snd y) - 1)) < 0
              \<and> snd (open_res sy (n_open (snd y) - 1)) = ENOENT
            \<longrightarrow> fst y = ENOENT \<and> n_clock s + 2 < n_clock (snd y)
                \<and> \<not> NSEC2MSEC (wrap64 (hrtime sy (n_clock (snd y) - 1) - start))
                      < wrap64 (T * MILLISEC)"
          by (simp_all add: round_calls_simps)
        have "fst (open_res sy k) < 0 \<and> snd (open_res sy k) = ENOENT"
          if "n_open s \<le> k \<and> k < n_open (snd y) - 1" for k
        proof (cases "k = n_open s")
          case True
          with neg \<open>snd (open_res sy (n_open s)) = ENOENT\<close> show ?thesis by simp
        next
          case False
          with that ih(5) show ?thesis by simp
        qed
        with ih show ?thesis by auto
      qed
    qed
  qed
qed



lemma wait_loop_zero:
  assumes "start \<le> hrtime sy (n_clock s + 1)" "hrtime sy (n_clock s + 1) - start < 2 ^ 63"
  shows "wait_loop sy 0 start s =
           Some (if 0 \<le> fst (open_res sy (n_open s))
                 then (0, s\<lparr>n_open := n_open s + 1, n_close := n_close s + 1\<rparr>)
                 else if snd (open_res sy (n_open s)) \<noteq> ENOENT
                 then (snd (open_res sy (n_open s)), s\<lparr>n_open := n_open s + 1\<rparr>)
                 else (ENOENT,
                       if NSEC2MSEC (wrap64 (hrtime sy (n_clock s) - start)) < busy_timeout
                       then s\<lparr>n_open := n_open s + 1, n_yield := n_yield s + 1,
                               n_clock := n_clock s + 2\<rparr>
                       else s\<lparr>n_open := n_open s + 1, n_sleep := n_sleep s + 1,
                               n_clock := n_clock s + 2\<rparr>))"
proof (cases "0 \<le> fst (open_res sy (n_open s))")
  case True
  then show ?thesis by (simp add: wait_loop_opened)
next
  case False
  note neg = this
  show ?thesis
  proof (cases "snd (open_res sy (n_open s)) = ENOENT")
    case False
    with neg show ?thesis by (simp add: wait_loop_error)
  next
    case True
    have "wrap64 (hrtime sy (n_clock s + 1) - start) = hrtime sy (n_clock s + 1) - start"
      using assms by (intro wrap64_id) simp_all
    moreover from assms have "0 \<le> NSEC2MSEC (hrtime sy (n_clock s + 1) - start)"
      by (intro NSEC2MSEC_nonneg) simp
    moreover have "wrap64 (0 * MILLISEC) = 0" by (simp add: wrap64_def)
    ultimately have "\<not> NSEC2MSEC (wrap64 (hrtime sy (n_clock s + 1) - start)) < wrap64 (0 * MILLISEC)"
      by simp
    with neg True show ?thesis
      by (simp add: wait_loop_retry round_calls_def)
  qed
qed

lemma module_timeout_eq:
  "module_timeout (Some v) = (if strtol v < 0 then 0 else if 600 < strtol v then 600 else strtol v)"
  by (simp add: module_timeout_def)

lemma strtol_values:
  "strtol ''700'' = 700" "strtol ''-1'' = - 1" "strtol ''42'' = 42" "strtol ''0x10'' = 16"
  by (simp_all add: strtol_def isspace_def in_base_def digit_val_def digit_of_def
      LONG_MAX_def LONG_MIN_def)

lemma libzfs_module_loaded_eq:
  "libzfs_module_loaded sy module s =
     (if length module \<le> 250
      then Inr (access_res sy (n_access s) (path_prefix @ module), s\<lparr>n_access := n_access s + 1\<rparr>)
      else Inl BufferOverflow)"
  by (simp add: libzfs_module_loaded_def module_path_eq)


section \<open>Properties of the readiness check\<close>

text \<open>
  C10. \<^verbatim>\<open>libzfs_module_loaded\<close> copies \<^verbatim>\<open>"/dev/"\<close> and then the module name into
  its 256-byte array without a length check. The writes stay inside the array
  exactly when the name has at most 250 bytes; for every such name the path
  given to \<^verbatim>\<open>access\<close> is the prefix followed by the name, and for every longer
  name a write leaves the array.
\<close>

theorem module_loaded_buffer:
  "module_path module
     = (if length module \<le> 250 then Inr (path_prefix @ module) else Inl BufferOverflow)
   \<and> libzfs_module_loaded sy module s
     = (if length module \<le> 250
        then Inr (access_res sy (n_access s) (path_prefix @ module),
                  s\<lparr>n_access := n_access s + 1\<rparr>)
        else Inl BufferOverflow)"
  by (simp add: libzfs_module_loaded_eq module_path_eq)

theorem module_loaded_buffer_witness:
  "module_path ''zfs'' = Inr ''/dev/zfs''
   \<and> module_path (replicate 251 (CHR ''a'')) = Inl BufferOverflow
   \<and> libzfs_module_loaded sys_ready ''zfs'' calls0 = Inr (True, calls0\<lparr>n_access := 1\<rparr>)"
  using module_loaded_buffer [of "''zfs''" sys_ready calls0]
    module_loaded_buffer [of "replicate 251 (CHR ''a'')" sys_ready calls0]
  by (simp add: path_prefix_def sys_ready_def calls0_def)

text \<open>
  C1, as the code has it. When the device node of the module exists at the
  call (and the name fits the path array), the call is the wait loop on the
  control device, entered after one \<^verbatim>\<open>access\<close>, one \<^verbatim>\<open>getenv\<close> of
  \<^verbatim>\<open>ZFS_MODULE_TIMEOUT\<close> and one clock reading, and it does not fault. Every
  result it returns was reached without a run of the loader and without a
  read of \<^verbatim>\<open>ZFS_MODULE_LOADING\<close>, after opens that all failed with \<^verbatim>\<open>ENOENT\<close>
  except the last; the result is 0 if the last \<^verbatim>\<open>open\<close> succeeded, its \<^verbatim>\<open>errno\<close>
  if it failed with another error than \<^verbatim>\<open>ENOENT\<close>, and \<^verbatim>\<open>ENOENT\<close> if it failed
  with \<^verbatim>\<open>ENOENT\<close> and the loop condition after it found the timeout reached.
  In particular the result is 0 when the first \<^verbatim>\<open>open\<close> succeeds.
\<close>

theorem load_module_node_present:
  assumes "length module \<le> 250"
    and "access_res sy (n_access s) (path_prefix @ module)"
  shows "libzfs_load_module_impl sy module s
           = map_option Inr
               (wait_loop sy (module_timeout (getenv sy ''ZFS_MODULE_TIMEOUT''))
                  (hrtime sy (n_clock s))
                  (s\<lparr>n_access := n_access s + 1,
                      env_reads := env_reads s @ [''ZFS_MODULE_TIMEOUT''],
                      n_clock := n_clock s + 1\<rparr>))
         \<and> (\<forall>f. libzfs_load_module_impl sy module s \<noteq> Some (Inl f))
         \<and> (\<forall>r s'. libzfs_load_module_impl sy module s = Some (Inr (r, s')) \<longrightarrow>
               n_run s' = n_run s \<and> n_access s' = n_access s + 1
               \<and> env_reads s' = env_reads s @ [''ZFS_MODULE_TIMEOUT'']
               \<and> n_open s < n_open s'
               \<and> (\<forall>k. n_open s \<le> k \<and> k < n_open s' - 1 \<longrightarrow>
                     fst (open_res sy k) < 0 \<and> snd (open_res sy k) = ENOENT)
               \<and> (0 \<le> fst (open_res sy (n_open s' - 1)) \<longrightarrow> r = 0)
               \<and> (fst (open_res sy (n_open s' - 1)) < 0
                    \<and> snd (open_res sy (n_open s' - 1)) \<noteq> ENOENT
                  \<longrightarrow> r = snd (open_res sy (n_open s' - 1)))
               \<and> (fst (open_res sy (n_open s' - 1)) < 0
                    \<and> snd (open_res sy (n_open s' - 1)) = ENOENT
                  \<longrightarrow> r = ENOENT
                      \<and> \<not> NSEC2MSEC (wrap64 (hrtime sy (n_clock s' - 1) - hrtime sy (n_clock s)))
                            < wrap64 (module_timeout (getenv sy ''ZFS_MODULE_TIMEOUT'') * MILLISEC)))
         \<and> (0 \<le> fst (open_res sy (n_open s)) \<longrightarrow>
               libzfs_load_module_impl sy module s
                 = Some (Inr (0, s\<lparr>n_access := n_access s + 1,
                                    env_reads := env_reads s @ [''ZFS_MODULE_TIMEOUT''],
                                    n_clock := n_clock s + 1,
                                    n_open := n_open s + 1, n_close := n_close s + 1\<rparr>)))"
proof -
  let ?T = "module_timeout (getenv sy ''ZFS_MODULE_TIMEOUT'')"
  let ?s1 = "s\<lparr>n_access := n_access s + 1,
                  env_reads := env_reads s @ [''ZFS_MODULE_TIMEOUT''],
                  n_clock := n_clock s + 1\<rparr>"
  have eq: "libzfs_load_module_impl sy module s
              = map_option Inr (wait_loop sy ?T (hrtime sy (n_clock s)) ?s1)"
    using assms
    by (simp add: libzfs_load_module_impl_def libzfs_module_loaded_eq load_module_wait_def Let_def)
  have nofault: "libzfs_load_module_impl sy module s \<noteq> Some (Inl f)" for f
    by (auto simp: eq)
  have res: "n_run s' = n_run s \<and> n_access s' = n_access s + 1
               \<and> env_reads s' = env_reads s @ [''ZFS_MODULE_TIMEOUT'']
               \<and> n_open s < n_open s'
               \<and> (\<forall>k. n_open s \<le> k \<and> k < n_open s' - 1 \<longrightarrow>
                     fst (open_res sy k) < 0 \<and> snd (open_res sy k) = ENOENT)
               \<and> (0 \<le> fst (open_res sy (n_open s' - 1)) \<longrightarrow> r = 0)
               \<and> (fst (open_res sy (n_open s' - 1)) < 0
                    \<and> snd (open_res sy (n_open s' - 1)) \<noteq> ENOENT
                  \<longrightarrow> r = snd (open_res sy (n_open s' - 1)))
               \<and> (fst (open_res sy (n_open s' - 1)) < 0
                    \<and> snd (open_res sy (n_open s' - 1)) = ENOENT
                  \<longrightarrow> r = ENOENT
                      \<and> \<not> NSEC2MSEC (wrap64 (hrtime sy (n_clock s' - 1) - hrtime sy (n_clock s)))
                            < wrap64 (?T * MILLISEC))"
    if "libzfs_load_module_impl sy module s = Some (Inr (r, s'))" for r s'
  proof -
    from that eq have "wait_loop sy ?T (hrtime sy (n_clock s)) ?s1 = Some (r, s')"
      by auto
    from wait_loop_result [OF this] show ?thesis by simp
  qed
  have ok: "libzfs_load_module_impl sy module s
                 = Some (Inr (0, s\<lparr>n_access := n_access s + 1,
                                    env_reads := env_reads s @ [''ZFS_MODULE_TIMEOUT''],
                                    n_clock := n_clock s + 1,
                                    n_open := n_open s + 1, n_close := n_close s + 1\<rparr>))"
    if "0 \<le> fst (open_res sy (n_open s))"
    using that by (simp add: eq wait_loop_opened)
  from eq nofault res ok show ?thesis by blast
qed

text \<open>
  C1 as stated fails: on \<open>sys_denied\<close> the node \<^verbatim>\<open>/dev/zfs\<close> exists and the call
  returns \<^verbatim>\<open>EACCES\<close>, not 0.
\<close>

theorem load_module_node_present_counterexample:
  "access_res sys_denied (n_access calls0) (path_prefix @ ''zfs'')
   \<and> libzfs_load_module_impl sys_denied ''zfs'' calls0
       = Some (Inr (EACCES, calls0\<lparr>n_access := 1, env_reads := [''ZFS_MODULE_TIMEOUT''],
                                    n_clock := 1, n_open := 1\<rparr>))
   \<and> EACCES \<noteq> 0"
  by (simp add: libzfs_load_module_impl_def libzfs_module_loaded_eq load_module_wait_def
      wait_loop_error sys_denied_def calls0_def errno_defs)

theorem load_module_node_present_witness:
  "length ''zfs'' \<le> 250 \<and> access_res sys_late (n_access calls0) (path_prefix @ ''zfs'')
   \<and> fst (open_res sys_late 0) < 0 \<and> snd (open_res sys_late 0) = ENOENT
   \<and> 0 \<le> fst (open_res sys_late 1)
   \<and> (\<exists>s'. libzfs_load_module_impl sys_late ''zfs'' calls0 = Some (Inr (0, s'))
          \<and> n_open s' = 2 \<and> n_run s' = 0 \<and> env_reads s' = [''ZFS_MODULE_TIMEOUT''])"
proof -
  let ?s1 = "calls0\<lparr>n_access := n_access calls0 + 1,
                  env_reads := env_reads calls0 @ [''ZFS_MODULE_TIMEOUT''],
                  n_clock := n_clock calls0 + 1\<rparr>"
  have len: "length ''zfs'' \<le> 250" by simp
  have acc: "access_res sys_late (n_access calls0) (path_prefix @ ''zfs'')"
    by (simp add: sys_late_def)
  have opn: "fst (open_res sys_late 0) < 0" "snd (open_res sys_late 0) = ENOENT"
    "0 \<le> fst (open_res sys_late 1)"
    by (simp_all add: sys_late_def)
  have T: "module_timeout (getenv sys_late ''ZFS_MODULE_TIMEOUT'') = 10"
    by (simp add: sys_late_def module_timeout_def)
  have "wait_loop sys_late 10 (hrtime sys_late (n_clock calls0)) ?s1
          = wait_loop sys_late 10 (hrtime sys_late (n_clock calls0))
              (round_calls sys_late (hrtime sys_late (n_clock calls0)) ?s1)"
    using wait_loop_retry [of sys_late ?s1 10 "hrtime sys_late (n_clock calls0)"]
    by (simp add: sys_late_def calls0_def NSEC2MSEC_eq MILLISEC_def wrap64_def)
  also have "\<dots> = Some (0, (round_calls sys_late (hrtime sys_late (n_clock calls0)) ?s1)
                \<lparr>n_open := n_open (round_calls sys_late (hrtime sys_late (n_clock calls0)) ?s1) + 1,
                  n_close := n_close (round_calls sys_late (hrtime sys_late (n_clock calls0)) ?s1) + 1\<rparr>)"
    by (rule wait_loop_opened) (simp add: round_calls_simps sys_late_def calls0_def)
  finally obtain s' where run: "wait_loop sys_late 10 (hrtime sys_late (n_clock calls0)) ?s1 = Some (0, s')"
    and s': "n_open s' = 2"
    by (simp add: round_calls_simps calls0_def)
  note inst = load_module_node_present [OF len acc]
  from inst [THEN conjunct1] run T
  have impl: "libzfs_load_module_impl sys_late ''zfs'' calls0 = Some (Inr (0, s'))"
    by simp
  from inst [THEN conjunct2, THEN conjunct2, THEN conjunct1, rule_format, OF impl]
  have "n_run s' = n_run calls0" "env_reads s' = env_reads calls0 @ [''ZFS_MODULE_TIMEOUT'']"
    by simp_all
  then have k: "n_run s' = 0" "env_reads s' = [''ZFS_MODULE_TIMEOUT'']"
    by (simp_all add: calls0_def)
  from impl s' k have "\<exists>s'. libzfs_load_module_impl sys_late ''zfs'' calls0 = Some (Inr (0, s'))
          \<and> n_open s' = 2 \<and> n_run s' = 0 \<and> env_reads s' = [''ZFS_MODULE_TIMEOUT'']"
    by blast
  with len acc opn show ?thesis by simp
qed




text \<open>
  C7, as the code has it. The timeout is \<^verbatim>\<open>strtol\<close> of the variable, replaced by
  0 when negative and by 600 when above 600, and kept otherwise: \<^verbatim>\<open>"700"\<close> gives
  600, \<^verbatim>\<open>"-1"\<close> gives 0, \<^verbatim>\<open>"42"\<close> gives 42. With timeout 0 and a clock that at
  the loop condition is not behind \<open>start\<close> (and less than 2^63 ns ahead),
  the loop makes exactly one \<^verbatim>\<open>open\<close> and returns. When that \<^verbatim>\<open>open\<close> succeeds
  the descriptor is closed and nothing else happens; when it fails with
  another error than \<^verbatim>\<open>ENOENT\<close> nothing else happens; when it fails with
  \<^verbatim>\<open>ENOENT\<close> the loop body reads the clock, makes one \<^verbatim>\<open>sched_yield\<close> if less
  than 10 ms have elapsed and one \<^verbatim>\<open>usleep\<close> of 10 ms otherwise, reads the
  clock again and returns \<^verbatim>\<open>ENOENT\<close>.
\<close>

theorem module_timeout_clamped:
  "module_timeout (Some v)
     = (if strtol v < 0 then 0 else if 600 < strtol v then 600 else strtol v)
   \<and> strtol ''700'' = 700 \<and> module_timeout (Some ''700'') = 600
   \<and> strtol ''-1'' = - 1 \<and> module_timeout (Some ''-1'') = 0
   \<and> strtol ''42'' = 42 \<and> module_timeout (Some ''42'') = 42
   \<and> (start \<le> hrtime sy (n_clock s + 1) \<and> hrtime sy (n_clock s + 1) - start < 2 ^ 63 \<longrightarrow>
        wait_loop sy 0 start s =
          Some (if 0 \<le> fst (open_res sy (n_open s))
                then (0, s\<lparr>n_open := n_open s + 1, n_close := n_close s + 1\<rparr>)
                else if snd (open_res sy (n_open s)) \<noteq> ENOENT
                then (snd (open_res sy (n_open s)), s\<lparr>n_open := n_open s + 1\<rparr>)
                else (ENOENT,
                      if NSEC2MSEC (wrap64 (hrtime sy (n_clock s) - start)) < busy_timeout
                      then s\<lparr>n_open := n_open s + 1, n_yield := n_yield s + 1,
                              n_clock := n_clock s + 2\<rparr>
                      else s\<lparr>n_open := n_open s + 1, n_sleep := n_sleep s + 1,
                              n_clock := n_clock s + 2\<rparr>)))"
proof -
  have "module_timeout (Some ''700'') = 600" "module_timeout (Some ''-1'') = 0"
    "module_timeout (Some ''42'') = 42"
    by (simp_all add: module_timeout_eq strtol_values)
  with module_timeout_eq [of v] strtol_values wait_loop_zero [of start sy s]
  show ?thesis by simp
qed

text \<open>
  C7 as stated fails in its last part: on \<open>sys_slow_neg\<close> the variable is
  \<^verbatim>\<open>-1\<close>, the timeout is 0, and after the single probe the call sleeps once
  (10 ms) before it returns \<^verbatim>\<open>ENOENT\<close>.
\<close>

theorem module_timeout_clamped_counterexample:
  "getenv sys_slow_neg ''ZFS_MODULE_TIMEOUT'' = Some ''-1''
   \<and> module_timeout (Some ''-1'') = 0
   \<and> libzfs_load_module_impl sys_slow_neg ''zfs'' calls0
       = Some (Inr (ENOENT, calls0\<lparr>n_access := 1, env_reads := [''ZFS_MODULE_TIMEOUT''],
                                    n_open := 1, n_sleep := 1, n_clock := 3\<rparr>))
   \<and> n_sleep (calls0\<lparr>n_access := 1, env_reads := [''ZFS_MODULE_TIMEOUT''],
                      n_open := 1, n_sleep := 1, n_clock := 3\<rparr>) = n_sleep calls0 + 1"
proof -
  let ?s1 = "calls0\<lparr>n_access := 1, env_reads := [''ZFS_MODULE_TIMEOUT''], n_clock := 1\<rparr>"
  have t: "module_timeout (Some ''-1'') = 0"
    by (simp add: module_timeout_eq strtol_values)
  have g: "getenv sys_slow_neg ''ZFS_MODULE_TIMEOUT'' = Some ''-1''"
    by (simp add: sys_slow_neg_def)
  have a: "access_res sys_slow_neg k p" for k p
    by (simp add: sys_slow_neg_def sys_slow_def)
  have h: "hrtime sys_slow_neg k = int k * 12500000" for k
    by (simp add: sys_slow_neg_def sys_slow_def)
  have w: "wait_loop sys_slow_neg 0 0 ?s1
             = Some (ENOENT, calls0\<lparr>n_access := 1, env_reads := [''ZFS_MODULE_TIMEOUT''],
                                    n_open := 1, n_sleep := 1, n_clock := 3\<rparr>)"
    using wait_loop_retry [of sys_slow_neg ?s1 0 0]
    by (simp add: round_calls_def sys_slow_neg_def sys_slow_def calls0_def
        NSEC2MSEC_eq MILLISEC_def busy_timeout_def wrap64_def)
  have "libzfs_load_module_impl sys_slow_neg ''zfs'' calls0
       = Some (Inr (ENOENT, calls0\<lparr>n_access := 1, env_reads := [''ZFS_MODULE_TIMEOUT''],
                                    n_open := 1, n_sleep := 1, n_clock := 3\<rparr>))"
    using w
    by (simp add: libzfs_load_module_impl_def libzfs_module_loaded_eq load_module_wait_def
        g t a h calls0_def)
  with t g show ?thesis by (simp add: calls0_def)
qed

theorem module_timeout_clamped_witness:
  "0 \<le> hrtime sys_slow (n_clock calls0 + 1) \<and> hrtime sys_slow (n_clock calls0 + 1) - 0 < 2 ^ 63
   \<and> wait_loop sys_slow 0 0 calls0
       = Some (ENOENT, calls0\<lparr>n_open := 1, n_yield := 1, n_clock := 2\<rparr>)
   \<and> module_timeout (Some ''601'') = 600 \<and> module_timeout (Some ''600'') = 600"
proof -
  have clk: "0 \<le> hrtime sys_slow (n_clock calls0 + 1)"
    "hrtime sys_slow (n_clock calls0 + 1) - 0 < 2 ^ 63"
    by (simp_all add: sys_slow_def calls0_def)
  have s: "strtol ''601'' = 601" "strtol ''600'' = 600"
    by (simp_all add: strtol_def isspace_def in_base_def digit_val_def digit_of_def LONG_MAX_def)
  from module_timeout_clamped [of "''601''" 0 sys_slow calls0]
    module_timeout_clamped [of "''600''" 0 sys_slow calls0] clk s
  show ?thesis
    by (simp add: sys_slow_def calls0_def NSEC2MSEC_eq busy_timeout_def wrap64_def ENOENT_def)
qed

text \<open>
  C8. In every round of the wait loop, when \<^verbatim>\<open>open\<close> fails with an error other
  than \<^verbatim>\<open>ENOENT\<close>, the loop returns that error at once: the only call of the
  round is that \<^verbatim>\<open>open\<close>, with no clock reading, yield, sleep or further probe.
\<close>

theorem wait_loop_device_error:
  assumes "fst (open_res sy (n_open s)) < 0"
    and "snd (open_res sy (n_open s)) \<noteq> ENOENT"
  shows "wait_loop sy T start s
           = Some (snd (open_res sy (n_open s)), s\<lparr>n_open := n_open s + 1\<rparr>)"
  using assms by (rule wait_loop_error)

theorem wait_loop_device_error_witness:
  "fst (open_res sys_denied (n_open calls0)) < 0
   \<and> snd (open_res sys_denied (n_open calls0)) \<noteq> ENOENT
   \<and> wait_loop sys_denied 10 0 calls0 = Some (EACCES, calls0\<lparr>n_open := 1\<rparr>)"
  using wait_loop_device_error [of sys_denied calls0 10 0]
  by (simp add: sys_denied_def calls0_def errno_defs)

section \<open>The search, entry by entry\<close>

lemma bcopy_at:
  assumes "length pre = off" "length src \<le> length rest"
  shows "bcopy src (pre @ rest) off = Some (pre @ src @ drop (length src) rest)"
  using assms by (simp add: bcopy_def)

lemma store_at:
  assumes "length pre = i" "rest \<noteq> []"
  shows "store (pre @ rest) i c = Some (pre @ c # tl rest)"
  using assms by (cases rest) (simp_all add: store_def list_update_append)

lemma build_candidate_fits:
  assumes "lp = length p" "ln = length name" "lp + ln + 2 \<le> length b0"
  shows "\<exists>b. build_candidate p lp name ln b0 = Some b
              \<and> cstr b = Some (p @ ''/'' @ name) \<and> length b = length b0"
proof -
  let ?r1 = "drop lp b0"
  have s1: "bcopy (map Ch (take lp p)) b0 0 = Some (map Ch p @ ?r1)"
    using assms bcopy_at [of "[]" 0 "map Ch p" b0] by simp
  have ne1: "?r1 \<noteq> []" using assms by simp
  have s2: "store (map Ch p @ ?r1) lp (Ch (CHR ''/'')) = Some (map Ch p @ Ch (CHR ''/'') # tl ?r1)"
    using assms ne1 by (intro store_at) simp_all
  let ?r2 = "tl ?r1"
  have len2: "length ?r2 = length b0 - lp - 1" by simp
  have s3: "bcopy (map Ch (take ln name)) (map Ch p @ Ch (CHR ''/'') # ?r2) (lp + 1)
              = Some ((map Ch p @ [Ch (CHR ''/'')]) @ map Ch name @ drop ln ?r2)"
    using assms bcopy_at [of "map Ch p @ [Ch (CHR ''/'')]" "lp + 1" "map Ch name" ?r2]
    by simp
  let ?r3 = "drop ln ?r2"
  have ne3: "?r3 \<noteq> []" using assms by simp
  have s4: "store ((map Ch p @ [Ch (CHR ''/'')]) @ map Ch name @ ?r3) (lp + ln + 1) Nul
              = Some ((map Ch p @ [Ch (CHR ''/'')] @ map Ch name) @ Nul # tl ?r3)"
    using assms ne3 store_at [of "map Ch p @ [Ch (CHR ''/'')] @ map Ch name" "lp + ln + 1" ?r3 Nul]
    by simp
  let ?b = "(map Ch p @ [Ch (CHR ''/'')] @ map Ch name) @ Nul # tl ?r3"
  have b: "build_candidate p lp name ln b0 = Some ?b"
    using s1 s2 s3 s4 by (simp add: build_candidate_def)
  have "?b = map Ch (p @ ''/'' @ name) @ Nul # tl ?r3" by simp
  then have c: "cstr ?b = Some (p @ ''/'' @ name)"
    using cstr_content [of "p @ ''/'' @ name" "tl ?r3"] by simp
  have l: "length ?b = length b0" using assms by simp
  from b c l show ?thesis by blast
qed

lemma loop_body_too_long:
  assumes "too_long p0 name"
  shows "loop_body sy name argv envp p0 st =
           Next (st\<lparr>err_out := err_out st
                  @ [''execvP: '', if p0 = [] then ''.'' else p0, '': path too long'' @ [CHR 0x0A]]\<rparr>)"
  using assms by (simp add: loop_body_def too_long_def Let_def)

lemma loop_body_fits:
  assumes "\<not> too_long p0 name" "length (buf st) = MAXPATHLEN"
  shows "\<exists>b. length b = MAXPATHLEN
            \<and> loop_body sy name argv envp p0 st = try_exec sy (candidate p0 name) argv envp (st\<lparr>buf := b\<rparr>)"
proof -
  let ?p = "if p0 = [] then ''.'' else p0"
  let ?lp = "if p0 = [] then 1 else length p0"
  have lp: "?lp = length ?p" by simp
  have fit: "?lp + length name + 2 \<le> length (buf st)"
    using assms by (simp add: too_long_def)
  from build_candidate_fits [OF lp refl fit] obtain b where
    b: "build_candidate ?p ?lp name (length name) (buf st) = Some b"
    and c: "cstr b = Some (?p @ ''/'' @ name)" and l: "length b = length (buf st)"
    by blast
  have "loop_body sy name argv envp p0 st = try_exec sy (candidate p0 name) argv envp (st\<lparr>buf := b\<rparr>)"
    using assms(1) b c by (simp add: loop_body_def Let_def too_long_def candidate_def)
  with l assms(2) show ?thesis by auto
qed

lemma try_exec_next:
  assumes "try_exec sy bp argv envp st = Next st'"
  shows "buf st' = buf st \<and> err_out st' = err_out st
         \<and> (eacces st' \<longleftrightarrow> eacces st \<or> denied sy bp argv envp)"
  using assms
  by (auto simp: try_exec_def denied_def Let_def errno_defs split: option.splits if_splits)

lemma try_exec_stop:
  assumes "try_exec sy bp argv envp st = Stop r st'"
  shows "r \<noteq> Faulted BufferOverflow \<and> err_out st' = err_out st \<and> buf st' = buf st"
  using assms
  by (auto simp: try_exec_def Let_def split: option.splits if_splits)

lemma strsep_colon:
  assumes "CHR '':'' \<notin> set p"
  shows "strsep (Some (p @ CHR '':'' # rest)) = Some (p, Some rest)"
proof -
  have "takeWhile (\<lambda>c. c \<noteq> CHR '':'') (p @ CHR '':'' # rest) = p"
    using assms by (induction p) auto
  moreover have "dropWhile (\<lambda>c. c \<noteq> CHR '':'') (p @ CHR '':'' # rest) = CHR '':'' # rest"
    using assms by (induction p) auto
  ultimately show ?thesis by (simp add: strsep_def)
qed

lemma strsep_last:
  assumes "CHR '':'' \<notin> set p"
  shows "strsep (Some p) = Some (p, None)"
proof -
  have "takeWhile (\<lambda>c. c \<noteq> CHR '':'') p = p" "dropWhile (\<lambda>c. c \<noteq> CHR '':'') p = []"
    using assms by (induction p) auto
  then show ?thesis by (simp only: strsep_def option.case list.case)
qed

lemma search_None: "search sy name argv envp None st = Next st"
  by (subst search.simps) (simp add: strsep_def)

lemma search_step:
  assumes "strsep cur = Some (p0, cur')"
  shows "search sy name argv envp cur st =
           (case loop_body sy name argv envp p0 st of
              Stop r st' \<Rightarrow> Stop r st'
            | Next st' \<Rightarrow> search sy name argv envp cur' st')"
  using assms by (subst search.simps) simp

lemma path_entries_None: "path_entries None = []"
  by (subst path_entries.simps) (simp add: strsep_def)

lemma path_entries_step:
  assumes "strsep cur = Some (p0, cur')"
  shows "path_entries cur = p0 # path_entries cur'"
  using assms by (subst path_entries.simps) simp

lemma loop_body_next:
  assumes "loop_body sy name argv envp p0 st = Next st'" "length (buf st) = MAXPATHLEN"
  shows "length (buf st') = MAXPATHLEN
         \<and> (eacces st' \<longleftrightarrow> eacces st \<or> (\<not> too_long p0 name \<and> denied sy (candidate p0 name) argv envp))"
proof (cases "too_long p0 name")
  case True
  with assms show ?thesis by (auto simp: loop_body_too_long)
next
  case False
  from loop_body_fits [OF False assms(2), of sy argv envp] obtain b where
    b: "length b = MAXPATHLEN"
    "loop_body sy name argv envp p0 st = try_exec sy (candidate p0 name) argv envp (st\<lparr>buf := b\<rparr>)"
    by blast
  with assms(1) have "try_exec sy (candidate p0 name) argv envp (st\<lparr>buf := b\<rparr>) = Next st'"
    by simp
  from try_exec_next [OF this] b(1) False show ?thesis by simp
qed

lemma loop_body_stop:
  assumes "loop_body sy name argv envp p0 st = Stop r st'" "length (buf st) = MAXPATHLEN"
  shows "r \<noteq> Faulted BufferOverflow"
proof (cases "too_long p0 name")
  case True
  with assms show ?thesis by (simp add: loop_body_too_long)
next
  case False
  from loop_body_fits [OF False assms(2), of sy argv envp] obtain b where
    "loop_body sy name argv envp p0 st = try_exec sy (candidate p0 name) argv envp (st\<lparr>buf := b\<rparr>)"
    by blast
  with assms(1) try_exec_stop show ?thesis by metis
qed

lemma search_exhausted:
  assumes "search sy name argv envp cur st = Next st'" "length (buf st) = MAXPATHLEN"
  shows "eacces st' \<longleftrightarrow>
           eacces st \<or> (\<exists>p0\<in>set (path_entries cur).
                           \<not> too_long p0 name \<and> denied sy (candidate p0 name) argv envp)"
  using assms
proof (induction sy name argv envp cur st rule: search.induct)
  case (1 sy name argv envp cur st)
  show ?case
  proof (cases "strsep cur")
    case None
    then have "cur = None" by (simp add: strsep_def split: option.splits)
    with "1.prems" show ?thesis by (simp add: search_None path_entries_None)
  next
    case (Some x)
    obtain p0 cur' where x: "x = (p0, cur')" by (cases x)
    with Some have sep: "strsep cur = Some (p0, cur')" by simp
    from "1.prems"(1) obtain st1 where
      body: "loop_body sy name argv envp p0 st = Next st1"
      and rest: "search sy name argv envp cur' st1 = Next st'"
      by (auto simp: search_step [OF sep] split: flow.splits)
    from loop_body_next [OF body "1.prems"(2)] have
      len: "length (buf st1) = MAXPATHLEN"
      and flag: "eacces st1 \<longleftrightarrow> eacces st \<or> (\<not> too_long p0 name \<and> denied sy (candidate p0 name) argv envp)"
      by simp_all
    from "1.IH" [OF Some x [symmetric] body rest len] flag
    show ?thesis by (auto simp: path_entries_step [OF sep])
  qed
qed

lemma search_no_overflow:
  assumes "length (buf st) = MAXPATHLEN"
  shows "search sy name argv envp cur st \<noteq> Stop (Faulted BufferOverflow) st'"
  using assms
proof (induction sy name argv envp cur st rule: search.induct)
  case (1 sy name argv envp cur st)
  show ?case
  proof (cases "strsep cur")
    case None
    then have "cur = None" by (simp add: strsep_def split: option.splits)
    then show ?thesis by (simp add: search_None)
  next
    case (Some x)
    obtain p0 cur' where x: "x = (p0, cur')" by (cases x)
    with Some have sep: "strsep cur = Some (p0, cur')" by simp
    show ?thesis
    proof (cases "loop_body sy name argv envp p0 st")
      case (Stop r st1)
      from loop_body_stop [OF Stop "1.prems"] Stop show ?thesis
        by (simp add: search_step [OF sep])
    next
      case (Next st1)
      from loop_body_next [OF Next "1.prems"] have "length (buf st1) = MAXPATHLEN" by simp
      from "1.IH" [OF Some x [symmetric] Next this] Next show ?thesis
        by (simp add: search_step [OF sep])
    qed
  qed
qed

lemma search_state0_buf: "length (buf search_state0) = MAXPATHLEN"
  by (simp add: search_state0_def)

lemma read_argv_terminated: "read_argv (map Some xs @ None # rest) = Some xs"
  by (induction xs) simp_all

lemma shell_argv_read:
  assumes "argv \<noteq> []"
  shows "read_argv (shell_argv bp argv) = Some (''sh'' # bp # tl argv)"
proof -
  from assms obtain a as where argv: "argv = a # as" by (cases argv) auto
  have "shell_argv bp argv = map Some (''sh'' # bp # as) @ None # []"
    by (simp add: shell_argv_def argv)
  then show ?thesis
    using read_argv_terminated [of "''sh'' # bp # as" "[]"] argv by simp
qed

lemma search_skip:
  assumes "strsep cur = Some (p0, cur')" "too_long p0 name"
  shows "search sy name argv envp cur st =
           search sy name argv envp cur'
             (st\<lparr>err_out := err_out st
                 @ [''execvP: '', if p0 = [] then ''.'' else p0, '': path too long'' @ [CHR 0x0A]]\<rparr>)"
  using assms by (simp add: search_step loop_body_too_long)

lemma search_try:
  assumes "strsep cur = Some (p0, cur')" "\<not> too_long p0 name" "length (buf st) = MAXPATHLEN"
  shows "\<exists>b. length b = MAXPATHLEN
            \<and> search sy name argv envp cur st =
                (case try_exec sy (candidate p0 name) argv envp (st\<lparr>buf := b\<rparr>) of
                   Stop r st' \<Rightarrow> Stop r st'
                 | Next st' \<Rightarrow> search sy name argv envp cur' st')"
  using loop_body_fits [OF assms(2,3), of sy argv envp] by (auto simp: search_step [OF assms(1)])

lemma try_exec_denied:
  assumes "denied sy bp argv envp"
  shows "try_exec sy bp argv envp st = Next (st\<lparr>stats := stats st @ [bp], eacces := True\<rparr>)"
  using assms by (simp add: try_exec_def denied_def Let_def errno_defs)

lemma search_denied_step:
  assumes "strsep cur = Some (p0, cur')" "\<not> too_long p0 name" "length (buf st) = MAXPATHLEN"
    and "denied sy (candidate p0 name) argv envp"
  shows "\<exists>st1. length (buf st1) = MAXPATHLEN \<and> eacces st1
            \<and> search sy name argv envp cur st = search sy name argv envp cur' st1"
proof -
  from search_try [OF assms(1-3), of sy argv envp] obtain b where
    "length b = MAXPATHLEN"
    "search sy name argv envp cur st =
       search sy name argv envp cur'
         (st\<lparr>buf := b, stats := stats st @ [candidate p0 name], eacces := True\<rparr>)"
    by (auto simp: try_exec_denied [OF assms(4)])
  then show ?thesis
    by (intro exI [of _ "st\<lparr>buf := b, stats := stats st @ [candidate p0 name], eacces := True\<rparr>"])
      simp
qed

lemma try_exec_replaced:
  assumes "execve_res sy bp argv envp = None"
  shows "try_exec sy bp argv envp st = Stop (Replaced bp argv envp) st"
  using assms by (simp add: try_exec_def)

lemma try_exec_enoent:
  assumes "execve_res sy bp argv envp = Some ENOENT"
  shows "try_exec sy bp argv envp st = Next st"
  using assms by (simp add: try_exec_def errno_defs)

lemma search_replaced_step:
  assumes "strsep cur = Some (p0, cur')" "\<not> too_long p0 name" "length (buf st) = MAXPATHLEN"
    and "execve_res sy (candidate p0 name) argv envp = None"
  shows "\<exists>st1. err_out st1 = err_out st
            \<and> search sy name argv envp cur st = Stop (Replaced (candidate p0 name) argv envp) st1"
proof -
  from search_try [OF assms(1-3), of sy argv envp] obtain b where
    "search sy name argv envp cur st = Stop (Replaced (candidate p0 name) argv envp) (st\<lparr>buf := b\<rparr>)"
    by (auto simp: try_exec_replaced [OF assms(4)])
  then show ?thesis
    by (intro exI [of _ "st\<lparr>buf := b\<rparr>"]) simp
qed

lemma search_enoent_step:
  assumes "strsep cur = Some (p0, cur')" "\<not> too_long p0 name" "length (buf st) = MAXPATHLEN"
    and "execve_res sy (candidate p0 name) argv envp = Some ENOENT"
  shows "\<exists>st1. length (buf st1) = MAXPATHLEN \<and> err_out st1 = err_out st \<and> eacces st1 = eacces st
            \<and> search sy name argv envp cur st = search sy name argv envp cur' st1"
proof -
  from search_try [OF assms(1-3), of sy argv envp] obtain b where
    "length b = MAXPATHLEN"
    "search sy name argv envp cur st = search sy name argv envp cur' (st\<lparr>buf := b\<rparr>)"
    by (auto simp: try_exec_enoent [OF assms(4)])
  then show ?thesis
    by (intro exI [of _ "st\<lparr>buf := b\<rparr>"]) simp
qed

lemma search_empty_path:
  "search sy name argv envp (Some []) st = search sy name argv envp (Some ''.'') st"
proof -
  have 1: "strsep (Some []) = Some ([], None)" by (simp add: strsep_def)
  have 2: "strsep (Some ''.'') = Some (''.'', None)" by (simp add: strsep_def)
  have "loop_body sy name argv envp [] st = loop_body sy name argv envp ''.'' st"
    by (simp add: loop_body_def)
  then show ?thesis
    by (simp add: search_step [OF 1] search_step [OF 2])
qed

lemma entries_a_b: "path_entries (Some ''/a:/b'') = [''/a'', ''/b'']"
proof -
  have 1: "strsep (Some ''/a:/b'') = Some (''/a'', Some ''/b'')"
    using strsep_colon [of "''/a''" "''/b''"] by simp
  have 2: "strsep (Some ''/b'') = Some (''/b'', None)"
    using strsep_last [of "''/b''"] by simp
  show ?thesis
    by (simp add: path_entries_step [OF 1] path_entries_step [OF 2] path_entries_None)
qed

lemma long_entry_colon: "CHR '':'' \<notin> set long_entry"
  by (simp add: long_entry_def)

section \<open>Properties of the launcher\<close>

text \<open>
  C3, as the code has it. When \<^verbatim>\<open>PATH\<close> is unset the search uses the default
  path list. When \<^verbatim>\<open>PATH\<close> is set, the search uses its value, also when the
  value is the empty string: the empty string is one empty entry, which
  stands for the current directory, so the call is the same as a search of
  the path \<^verbatim>\<open>"."\<close>.
\<close>

theorem execvpe_search_path:
  "(getenv sy ''PATH'' = None
      \<longrightarrow> execvpe sy name argv envp = execvPe sy name PATH_DEFPATH argv envp)
   \<and> (getenv sy ''PATH'' = Some v
      \<longrightarrow> execvpe sy name argv envp = execvPe sy name v argv envp)
   \<and> (getenv sy ''PATH'' = Some []
      \<longrightarrow> execvpe sy name argv envp = execvPe sy name ''.'' argv envp)"
  by (simp add: execvpe_def execvPe_def search_empty_path alloca_ok_def)

text \<open>
  C3 as stated fails for the empty string: on \<open>sys_cwd\<close>, with \<^verbatim>\<open>PATH\<close> set to
  the empty string, \<^verbatim>\<open>execvpe\<close> executes \<^verbatim>\<open>./prog\<close>, while a search of the default
  path list fails with \<^verbatim>\<open>ENOENT\<close>.
\<close>

theorem execvpe_search_path_counterexample:
  "getenv sys_cwd ''PATH'' = Some []
   \<and> fst (execvpe sys_cwd ''prog'' [''prog''] []) = Replaced ''./prog'' [''prog''] []
   \<and> fst (execvPe sys_cwd ''prog'' PATH_DEFPATH [''prog''] []) = Failed ENOENT"
proof -
  let ?search = "search sys_cwd ''prog'' [''prog''] []"
  have env: "getenv sys_cwd ''PATH'' = Some []"
    by (simp add: sys_cwd_def)
  have ex: "execve_res sys_cwd p a e = (if p = ''./prog'' then None else Some ENOENT)" for p a e
    by (simp add: sys_cwd_def sys_exec_def)
  have fit: "\<not> too_long p0 ''prog''" if "length p0 \<le> 100" for p0
    using that by (simp add: too_long_def MAXPATHLEN_def)
  have 0: "strsep (Some []) = Some ([], None)" by (simp add: strsep_def)
  from search_replaced_step [OF 0 fit search_state0_buf, of sys_cwd "[''prog'']" "[]"]
  obtain st1 where "?search (Some []) search_state0 = Stop (Replaced ''./prog'' [''prog''] []) st1"
    by (auto simp: ex candidate_def)
  then have a: "fst (execvpe sys_cwd ''prog'' [''prog''] []) = Replaced ''./prog'' [''prog''] []"
    by (simp add: execvpe_def execvPe_def env alloca_ok_def)
  have 1: "strsep (Some ''/usr/bin:/bin'') = Some (''/usr/bin'', Some ''/bin'')"
    using strsep_colon [of "''/usr/bin''" "''/bin''"] by simp
  have 2: "strsep (Some ''/bin'') = Some (''/bin'', None)"
    using strsep_last [of "''/bin''"] by simp
  from search_enoent_step [OF 1 fit search_state0_buf, of sys_cwd "[''prog'']" "[]"]
  obtain st2 where st2: "length (buf st2) = MAXPATHLEN" "eacces st2 = eacces search_state0"
    "?search (Some ''/usr/bin:/bin'') search_state0 = ?search (Some ''/bin'') st2"
    by (auto simp: ex candidate_def)
  from search_enoent_step [OF 2 fit st2(1), of sys_cwd "[''prog'']" "[]"]
  obtain st3 where st3: "eacces st3 = eacces st2" "?search (Some ''/bin'') st2 = Next st3"
    by (auto simp: ex candidate_def search_None)
  from st2 st3 have "?search (Some PATH_DEFPATH) search_state0 = Next st3" "\<not> eacces st3"
    by (simp_all add: PATH_DEFPATH_def search_state0_def)
  then have b: "fst (execvPe sys_cwd ''prog'' PATH_DEFPATH [''prog''] []) = Failed ENOENT"
    by (simp add: execvPe_def alloca_ok_def)
  from env a b show ?thesis by blast
qed

theorem execvpe_search_path_witness:
  "getenv sys_cwd ''PATH'' = Some []
   \<and> execvpe sys_cwd ''prog'' [''prog''] [] = execvPe sys_cwd ''prog'' ''.'' [''prog''] []
   \<and> getenv sys_b ''PATH'' = None
   \<and> execvpe sys_b ''prog'' [''prog''] [] = execvPe sys_b ''prog'' PATH_DEFPATH [''prog''] []"
proof -
  have 1: "getenv sys_cwd ''PATH'' = Some []" by (simp add: sys_cwd_def)
  have 2: "getenv sys_b ''PATH'' = None" by (simp add: sys_b_def sys_exec_def)
  from execvpe_search_path [where sy = sys_cwd and name = "''prog''" and argv = "[''prog'']"
      and envp = "[]" and v = "[]"]
    execvpe_search_path [where sy = sys_b and name = "''prog''" and argv = "[''prog'']"
      and envp = "[]" and v = "[]"] 1 2
  show ?thesis by blast
qed

text \<open>
  C4. A candidate that fails with \<^verbatim>\<open>EACCES\<close> while \<^verbatim>\<open>stat\<close> succeeds on it sets the
  flag and the search goes on with the entries behind it. When the loop of a
  search for a bare name runs out of entries, the call returns \<^verbatim>\<open>-1\<close> with
  \<^verbatim>\<open>EACCES\<close> if the flag is set and with \<^verbatim>\<open>ENOENT\<close> otherwise, and the flag is
  set exactly when some entry that fits gave such a candidate. A name with a
  slash that is refused in this way gives \<^verbatim>\<open>EACCES\<close> as well.
\<close>

theorem search_permission_denied:
  "(strsep cur = Some (p0, cur') \<and> \<not> too_long p0 name \<and> length (buf st) = MAXPATHLEN
      \<and> denied sy (candidate p0 name) argv envp
    \<longrightarrow> (\<exists>b. search sy name argv envp cur st =
               search sy name argv envp cur'
                 (st\<lparr>buf := b, stats := stats st @ [candidate p0 name], eacces := True\<rparr>)))
   \<and> (CHR ''/'' \<notin> set name \<and> name \<noteq> []
        \<and> search sy name argv envp (Some path) search_state0 = Next st'
      \<longrightarrow> execvPe sy name path argv envp
            = (Failed (if eacces st' then EACCES else ENOENT), err_out st')
          \<and> (eacces st' \<longleftrightarrow>
               (\<exists>p0\<in>set (path_entries (Some path)).
                   \<not> too_long p0 name \<and> denied sy (candidate p0 name) argv envp)))
   \<and> (CHR ''/'' \<in> set name \<and> denied sy name argv envp
      \<longrightarrow> fst (execvPe sy name path argv envp) = Failed EACCES)"
proof (intro conjI impI)
  assume a: "strsep cur = Some (p0, cur') \<and> \<not> too_long p0 name \<and> length (buf st) = MAXPATHLEN
      \<and> denied sy (candidate p0 name) argv envp"
  then obtain b where
    "search sy name argv envp cur st =
       (case try_exec sy (candidate p0 name) argv envp (st\<lparr>buf := b\<rparr>) of
          Stop r st' \<Rightarrow> Stop r st'
        | Next st' \<Rightarrow> search sy name argv envp cur' st')"
    using search_try [of cur p0 cur' name st sy argv envp] by blast
  with a have "search sy name argv envp cur st =
      search sy name argv envp cur'
        (st\<lparr>buf := b, stats := stats st @ [candidate p0 name], eacces := True\<rparr>)"
    by (simp add: try_exec_denied)
  then show "\<exists>b. search sy name argv envp cur st =
      search sy name argv envp cur'
        (st\<lparr>buf := b, stats := stats st @ [candidate p0 name], eacces := True\<rparr>)" ..
next
  assume a: "CHR ''/'' \<notin> set name \<and> name \<noteq> []
        \<and> search sy name argv envp (Some path) search_state0 = Next st'"
  then show "execvPe sy name path argv envp
            = (Failed (if eacces st' then EACCES else ENOENT), err_out st')"
    by (simp add: execvPe_def alloca_ok_def)
next
  assume a: "CHR ''/'' \<notin> set name \<and> name \<noteq> []
        \<and> search sy name argv envp (Some path) search_state0 = Next st'"
  then have "search sy name argv envp (Some path) search_state0 = Next st'" by simp
  from search_exhausted [OF this search_state0_buf]
  show "eacces st' \<longleftrightarrow>
               (\<exists>p0\<in>set (path_entries (Some path)).
                   \<not> too_long p0 name \<and> denied sy (candidate p0 name) argv envp)"
    by (simp add: search_state0_def)
next
  assume "CHR ''/'' \<in> set name \<and> denied sy name argv envp"
  then show "fst (execvPe sy name path argv envp) = Failed EACCES"
    by (simp add: execvPe_def try_exec_denied search_None)
qed

theorem search_permission_denied_witness:
  "(\<exists>st'. search sys_noperm ''prog'' [''prog''] [] (Some ''/a:/b'') search_state0 = Next st')
   \<and> CHR ''/'' \<notin> set ''prog'' \<and> ''prog'' \<noteq> []
   \<and> path_entries (Some ''/a:/b'') = [''/a'', ''/b'']
   \<and> denied sys_noperm (candidate ''/a'' ''prog'') [''prog''] []
   \<and> denied sys_noperm (candidate ''/b'' ''prog'') [''prog''] []
   \<and> fst (execvPe sys_noperm ''prog'' ''/a:/b'' [''prog''] []) = Failed EACCES"
proof -
  let ?search = "search sys_noperm ''prog'' [''prog''] []"
  have den: "denied sys_noperm bp [''prog''] []" for bp
    by (simp add: denied_def sys_noperm_def sys_exec_def)
  have fit: "\<not> too_long ''/a'' ''prog''" "\<not> too_long ''/b'' ''prog''"
    by (simp_all add: too_long_def MAXPATHLEN_def)
  have 1: "strsep (Some ''/a:/b'') = Some (''/a'', Some ''/b'')"
    using strsep_colon [of "''/a''" "''/b''"] by simp
  have 2: "strsep (Some ''/b'') = Some (''/b'', None)"
    using strsep_last [of "''/b''"] by simp
  from search_denied_step [OF 1 fit(1) search_state0_buf den]
  obtain st1 where l1: "length (buf st1) = MAXPATHLEN"
    and s1: "?search (Some ''/a:/b'') search_state0 = ?search (Some ''/b'') st1"
    by blast
  from search_denied_step [OF 2 fit(2) l1 den]
  obtain st2 where s2: "?search (Some ''/b'') st1 = Next st2"
    by (auto simp: search_None)
  from s1 s2 have run: "?search (Some ''/a:/b'') search_state0 = Next st2" by simp
  have bare: "CHR ''/'' \<notin> set ''prog'' \<and> ''prog'' \<noteq> []" by simp
  from search_permission_denied [of _ _ _ "''prog''" _ sys_noperm "[''prog'']" "[]" "''/a:/b''" st2]
    run bare fit den
  have "fst (execvPe sys_noperm ''prog'' ''/a:/b'' [''prog''] []) = Failed EACCES"
    by (auto simp: entries_a_b)
  with run bare den entries_a_b show ?thesis by blast
qed

text \<open>
  C5, as the code has it. When \<^verbatim>\<open>execve\<close> fails with an error that is none of
  \<^verbatim>\<open>E2BIG\<close>, \<^verbatim>\<open>ELOOP\<close>, \<^verbatim>\<open>ENAMETOOLONG\<close>, \<^verbatim>\<open>ENOENT\<close>, \<^verbatim>\<open>ENOEXEC\<close>, \<^verbatim>\<open>ENOMEM\<close>,
  \<^verbatim>\<open>ENOTDIR\<close> and \<^verbatim>\<open>ETXTBSY\<close>, the candidate is given to \<^verbatim>\<open>stat\<close>: if \<^verbatim>\<open>stat\<close> fails
  the search goes on; if the error was \<^verbatim>\<open>EACCES\<close> the flag is set and the search
  goes on; any other error ends the call with that error. \<^verbatim>\<open>ETXTBSY\<close> is a case
  of its own: it ends the call with \<^verbatim>\<open>ETXTBSY\<close> and \<^verbatim>\<open>stat\<close> is not called.
\<close>

theorem try_exec_other_errors:
  "(execve_res sy bp argv envp = Some e
      \<and> e \<notin> {E2BIG, ELOOP, ENAMETOOLONG, ENOENT, ENOEXEC, ENOMEM, ENOTDIR, ETXTBSY}
    \<longrightarrow> try_exec sy bp argv envp st =
          (if \<not> stat_res sy bp then Next (st\<lparr>stats := stats st @ [bp]\<rparr>)
           else if e = EACCES then Next (st\<lparr>stats := stats st @ [bp], eacces := True\<rparr>)
           else Stop (Failed e) (st\<lparr>stats := stats st @ [bp]\<rparr>)))
   \<and> (execve_res sy bp argv envp = Some ETXTBSY
    \<longrightarrow> try_exec sy bp argv envp st = Stop (Failed ETXTBSY) st)"
  by (simp add: try_exec_def Let_def errno_defs)

text \<open>
  C5 as stated fails for \<^verbatim>\<open>ETXTBSY\<close>, which is not in its list: on \<open>sys_busy\<close> the
  candidate \<^verbatim>\<open>/a/prog\<close> fails with \<^verbatim>\<open>ETXTBSY\<close> and \<^verbatim>\<open>stat\<close> would fail on it, yet
  the attempt stops with \<^verbatim>\<open>ETXTBSY\<close> without a \<^verbatim>\<open>stat\<close>, and the search of
  \<^verbatim>\<open>/a:/b\<close> ends there although \<^verbatim>\<open>/b/prog\<close> could be executed.
\<close>

theorem try_exec_other_errors_counterexample:
  "execve_res sys_busy ''/a/prog'' [''prog''] [] = Some ETXTBSY
   \<and> ETXTBSY \<notin> {E2BIG, ELOOP, ENAMETOOLONG, ENOENT, ENOTDIR, ENOEXEC, ENOMEM}
   \<and> \<not> stat_res sys_busy ''/a/prog''
   \<and> try_exec sys_busy ''/a/prog'' [''prog''] [] search_state0
       = Stop (Failed ETXTBSY) search_state0
   \<and> stats search_state0 = []
   \<and> execve_res sys_busy ''/b/prog'' [''prog''] [] = None
   \<and> fst (execvPe sys_busy ''prog'' ''/a:/b'' [''prog''] []) = Failed ETXTBSY"
proof -
  have ex: "execve_res sys_busy ''/a/prog'' [''prog''] [] = Some ETXTBSY"
    "execve_res sys_busy ''/b/prog'' [''prog''] [] = None"
    "\<not> stat_res sys_busy ''/a/prog''"
    by (simp_all add: sys_busy_def sys_exec_def)
  have t: "try_exec sys_busy ''/a/prog'' [''prog''] [] st = Stop (Failed ETXTBSY) st" for st
    by (simp add: try_exec_def ex errno_defs)
  have 1: "strsep (Some ''/a:/b'') = Some (''/a'', Some ''/b'')"
    using strsep_colon [of "''/a''" "''/b''"] by simp
  have fit: "\<not> too_long ''/a'' ''prog''"
    by (simp add: too_long_def MAXPATHLEN_def)
  from search_try [OF 1 fit search_state0_buf, of sys_busy "[''prog'']" "[]"]
  obtain st1 where "search sys_busy ''prog'' [''prog''] [] (Some ''/a:/b'') search_state0
      = Stop (Failed ETXTBSY) st1"
    by (auto simp: candidate_def t)
  then have "fst (execvPe sys_busy ''prog'' ''/a:/b'' [''prog''] []) = Failed ETXTBSY"
    by (simp add: execvPe_def alloca_ok_def)
  with ex t show ?thesis
    by (simp add: errno_defs search_state0_def)
qed

theorem try_exec_other_errors_witness:
  "execve_res sys_noperm ''/a/prog'' [''prog''] [] = Some EACCES
   \<and> EACCES \<notin> {E2BIG, ELOOP, ENAMETOOLONG, ENOENT, ENOEXEC, ENOMEM, ENOTDIR, ETXTBSY}
   \<and> stat_res sys_noperm ''/a/prog''
   \<and> try_exec sys_noperm ''/a/prog'' [''prog''] [] search_state0
       = Next (search_state0\<lparr>stats := stats search_state0 @ [''/a/prog''], eacces := True\<rparr>)
   \<and> execve_res sys_busy ''/a/prog'' [''prog''] [] = Some ETXTBSY
   \<and> try_exec sys_busy ''/a/prog'' [''prog''] [] search_state0 = Stop (Failed ETXTBSY) search_state0"
proof -
  have 1: "execve_res sys_noperm ''/a/prog'' [''prog''] [] = Some EACCES"
    "stat_res sys_noperm ''/a/prog''"
    by (simp_all add: sys_noperm_def sys_exec_def)
  have 2: "EACCES \<notin> {E2BIG, ELOOP, ENAMETOOLONG, ENOENT, ENOEXEC, ENOMEM, ENOTDIR, ETXTBSY}"
    by (simp add: errno_defs)
  have 3: "execve_res sys_busy ''/a/prog'' [''prog''] [] = Some ETXTBSY"
    by (simp add: sys_busy_def sys_exec_def)
  from try_exec_other_errors [of sys_noperm "''/a/prog''" "[''prog'']" "[]" EACCES search_state0]
    try_exec_other_errors [of sys_busy "''/a/prog''" "[''prog'']" "[]" ETXTBSY search_state0]
    1 2 3
  show ?thesis by simp
qed

text \<open>
  The fallback to the shell. For an argument list that is a program name
  \<open>a0\<close> followed by \<open>args\<close>, \<^verbatim>\<open>ENOEXEC\<close> leads to an \<^verbatim>\<open>execve\<close> of \<^verbatim>\<open>_PATH_BSHELL\<close>
  with \<^verbatim>\<open>sh\<close>, the candidate path and \<open>args\<close>, and a failure of that \<^verbatim>\<open>execve\<close>
  ends the call with its error. For an empty argument list (\<^verbatim>\<open>argv[0]\<close> is
  \<^verbatim>\<open>NULL\<close>, so \<^verbatim>\<open>cnt\<close> is 0) the \<^verbatim>\<open>bcopy\<close> of \<^verbatim>\<open>cnt\<close> cells copies nothing, and the
  two cells of \<^verbatim>\<open>memp\<close> are given to \<^verbatim>\<open>execve\<close> without a terminator.
\<close>

lemma try_exec_shell_with_name:
  assumes "execve_res sy bp (a0 # args) envp = Some ENOEXEC"
  shows "try_exec sy bp (a0 # args) envp st =
          (case execve_res sy PATH_BSHELL (''sh'' # bp # args) envp of
             None \<Rightarrow> Stop (Replaced PATH_BSHELL (''sh'' # bp # args) envp) st
           | Some e \<Rightarrow> Stop (Failed e) st)"
  using assms shell_argv_read [of "a0 # args" bp]
  by (simp add: try_exec_def alloca_ok_def errno_defs)

lemma try_exec_empty_argv:
  assumes "execve_res sy bp [] envp = Some ENOEXEC"
  shows "try_exec sy bp [] envp st = Stop (Faulted UnterminatedRead) st"
  using assms by (simp add: try_exec_def shell_argv_def alloca_ok_def errno_defs)

text \<open>
  C6 does not hold of the code for every candidate. On \<open>sys_script\<close> the
  candidate \<^verbatim>\<open>/a/prog\<close> fails with \<^verbatim>\<open>ENOEXEC\<close>; called with an empty argument
  list, the code builds the vector \<^verbatim>\<open>sh\<close>, \<^verbatim>\<open>/a/prog\<close> without the terminating
  \<^verbatim>\<open>NULL\<close>, so the shell is not invoked with the candidate path and no further
  arguments, as C6 says, but \<^verbatim>\<open>execve\<close> reads past the end of \<^verbatim>\<open>memp\<close>; the
  search of \<^verbatim>\<open>/a:/b\<close> ends in that fault.
\<close>

theorem try_exec_shell_fallback_empty_argv:
  "execve_res sys_script ''/a/prog'' [] [] = Some ENOEXEC
   \<and> shell_argv ''/a/prog'' [] = [Some ''sh'', Some ''/a/prog'']
   \<and> read_argv (shell_argv ''/a/prog'' []) = None
   \<and> try_exec sys_script ''/a/prog'' [] [] search_state0
       = Stop (Faulted UnterminatedRead) search_state0
   \<and> fst (execvPe sys_script ''prog'' ''/a:/b'' [] []) = Faulted UnterminatedRead"
proof -
  have ex: "execve_res sys_script ''/a/prog'' [] [] = Some ENOEXEC"
    by (simp add: sys_script_def sys_exec_def)
  have v: "shell_argv ''/a/prog'' [] = [Some ''sh'', Some ''/a/prog'']"
    by (simp add: shell_argv_def)
  have 1: "strsep (Some ''/a:/b'') = Some (''/a'', Some ''/b'')"
    using strsep_colon [of "''/a''" "''/b''"] by simp
  have fit: "\<not> too_long ''/a'' ''prog''"
    by (simp add: too_long_def MAXPATHLEN_def)
  from search_try [OF 1 fit search_state0_buf, of sys_script "[]" "[]"]
  obtain st1 where "search sys_script ''prog'' [] [] (Some ''/a:/b'') search_state0
      = Stop (Faulted UnterminatedRead) st1"
    using try_exec_empty_argv [OF ex] by (auto simp: candidate_def)
  then have "fst (execvPe sys_script ''prog'' ''/a:/b'' [] []) = Faulted UnterminatedRead"
    by (simp add: execvPe_def alloca_ok_def)
  with ex v try_exec_empty_argv [OF ex, of search_state0] show ?thesis by simp
qed

text \<open>
  C9. An entry whose candidate with its terminator is longer than \<^verbatim>\<open>buf\<close>
  (\<^verbatim>\<open>lp + ln + 2 > sizeof (buf)\<close>) is reported on the error stream and skipped:
  the search goes on with the remaining entries, with \<^verbatim>\<open>buf\<close> and the flag
  untouched. No write of a candidate leaves \<^verbatim>\<open>buf\<close>: neither the loop nor
  \<^verbatim>\<open>execvPe\<close> as a whole ever ends in a buffer overflow.
\<close>

theorem search_skips_long_entries:
  "(strsep cur = Some (p0, cur') \<and> too_long p0 name
    \<longrightarrow> search sy name argv envp cur st =
          search sy name argv envp cur'
            (st\<lparr>err_out := err_out st
                @ [''execvP: '', if p0 = [] then ''.'' else p0, '': path too long'' @ [CHR 0x0A]]\<rparr>))
   \<and> too_long p0 name = (MAXPATHLEN < length (candidate p0 name) + 1)
   \<and> (length (buf st) = MAXPATHLEN
      \<longrightarrow> search sy name argv envp cur st \<noteq> Stop (Faulted BufferOverflow) st')
   \<and> fst (execvPe sy name path argv envp) \<noteq> Faulted BufferOverflow"
proof (intro conjI impI)
  assume "strsep cur = Some (p0, cur') \<and> too_long p0 name"
  then show "search sy name argv envp cur st =
          search sy name argv envp cur'
            (st\<lparr>err_out := err_out st
                @ [''execvP: '', if p0 = [] then ''.'' else p0, '': path too long'' @ [CHR 0x0A]]\<rparr>)"
    by (simp add: search_skip)
next
  show "too_long p0 name = (MAXPATHLEN < length (candidate p0 name) + 1)"
    by (simp add: too_long_def candidate_def)
next
  assume "length (buf st) = MAXPATHLEN"
  then show "search sy name argv envp cur st \<noteq> Stop (Faulted BufferOverflow) st'"
    by (rule search_no_overflow)
next
  show "fst (execvPe sy name path argv envp) \<noteq> Faulted BufferOverflow"
  proof (cases "CHR ''/'' \<in> set name")
    case True
    show ?thesis
    proof (cases "try_exec sy name argv envp search_state0")
      case (Next st1)
      with True show ?thesis by (simp add: execvPe_def search_None)
    next
      case (Stop r st1)
      with try_exec_stop [OF Stop] True show ?thesis by (simp add: execvPe_def)
    qed
  next
    case False
    show ?thesis
    proof (cases "search sy name argv envp (Some path) search_state0")
      case (Next st1)
      with False show ?thesis by (simp add: execvPe_def)
    next
      case (Stop r st1)
      with search_no_overflow [OF search_state0_buf, of sy name argv envp "Some path" st1]
      have "r \<noteq> Faulted BufferOverflow" by auto
      with Stop False show ?thesis by (simp add: execvPe_def)
    qed
  qed
qed

theorem search_skips_long_entries_witness:
  "strsep (Some (long_entry @ '':/b'')) = Some (long_entry, Some ''/b'')
   \<and> too_long long_entry ''prog''
   \<and> search sys_b ''prog'' [''prog''] [] (Some (long_entry @ '':/b'')) search_state0
       = search sys_b ''prog'' [''prog''] [] (Some ''/b'')
           (search_state0\<lparr>err_out := [''execvP: '', long_entry, '': path too long'' @ [CHR 0x0A]]\<rparr>)
   \<and> execvPe sys_b ''prog'' (long_entry @ '':/b'') [''prog''] []
       = (Replaced ''/b/prog'' [''prog''] [],
          [''execvP: '', long_entry, '': path too long'' @ [CHR 0x0A]])"
proof -
  let ?st1 = "search_state0\<lparr>err_out := [''execvP: '', long_entry, '': path too long'' @ [CHR 0x0A]]\<rparr>"
  have 1: "strsep (Some (long_entry @ '':/b'')) = Some (long_entry, Some ''/b'')"
    using strsep_colon [OF long_entry_colon, of "''/b''"] by simp
  have long: "too_long long_entry ''prog''"
    by (simp add: too_long_def long_entry_def MAXPATHLEN_def)
  have ne: "long_entry \<noteq> []" by (simp add: long_entry_def)
  from search_skips_long_entries [of "Some (long_entry @ '':/b'')" long_entry "Some ''/b''"
      "''prog''" sys_b "[''prog'']" "[]" search_state0] 1 long ne
  have skip: "search sys_b ''prog'' [''prog''] [] (Some (long_entry @ '':/b'')) search_state0
       = search sys_b ''prog'' [''prog''] [] (Some ''/b'') ?st1"
    by (simp add: search_state0_def)
  have 2: "strsep (Some ''/b'') = Some (''/b'', None)"
    using strsep_last [of "''/b''"] by simp
  have fit: "\<not> too_long ''/b'' ''prog''"
    by (simp add: too_long_def MAXPATHLEN_def)
  have len: "length (buf ?st1) = MAXPATHLEN" by (simp add: search_state0_def)
  have ex: "execve_res sys_b (candidate ''/b'' ''prog'') [''prog''] [] = None"
    by (simp add: sys_b_def sys_exec_def candidate_def)
  from search_replaced_step [OF 2 fit len ex] obtain st2 where
    "err_out st2 = err_out ?st1"
    "search sys_b ''prog'' [''prog''] [] (Some ''/b'') ?st1
       = Stop (Replaced (candidate ''/b'' ''prog'') [''prog''] []) st2"
    by blast
  with skip have "execvPe sys_b ''prog'' (long_entry @ '':/b'') [''prog''] []
       = (Replaced ''/b/prog'' [''prog''] [],
          [''execvP: '', long_entry, '': path too long'' @ [CHR 0x0A]])"
    by (simp add: execvPe_def alloca_ok_def long_entry_def candidate_def)
  with 1 long skip show ?thesis by blast
qed

end
